theory Spec2Isabelle
  imports Main
begin

chapter \<open>The model\<close>

section \<open>Strings of the event model\<close>

text \<open>
  The TypeScript sources work on JavaScript strings, sequences of UTF-16 code units.
  The model takes the code units below 256 (ASCII and the Latin-1 block), one
  \<^typ>\<open>char\<close> each, read through its code. On these units the character
  classes of the regular expressions in \<^verbatim>\<open>event.model.ts\<close> and of
  \<^verbatim>\<open>String.prototype.trim\<close> are:
  \<^item> \<^verbatim>\<open>\d\<close>: the digits 0 to 9;
  \<^item> \<^verbatim>\<open>\w\<close>: the ASCII letters, the digits and the underscore;
  \<^item> \<^verbatim>\<open>\s\<close> and the white space of \<^verbatim>\<open>trim\<close>: tab, line feed,
    vertical tab, form feed, carriage return, space and the no-break space.
\<close>

definition unit_code :: "char \<Rightarrow> nat" where
  "unit_code c = of_char c"

definition is_digit :: "char \<Rightarrow> bool" where
  "is_digit c = (48 \<le> unit_code c \<and> unit_code c \<le> 57)"

definition is_upper :: "char \<Rightarrow> bool" where
  "is_upper c = (65 \<le> unit_code c \<and> unit_code c \<le> 90)"

definition is_lower :: "char \<Rightarrow> bool" where
  "is_lower c = (97 \<le> unit_code c \<and> unit_code c \<le> 122)"

definition is_word :: "char \<Rightarrow> bool" where
  "is_word c = (is_upper c \<or> is_lower c \<or> is_digit c \<or> c = CHR ''_'')"

definition is_space :: "char \<Rightarrow> bool" where
  "is_space c = (unit_code c = 9 \<or> unit_code c = 10 \<or> unit_code c = 11 \<or> unit_code c = 12
     \<or> unit_code c = 13 \<or> unit_code c = 32 \<or> unit_code c = 160)"

text \<open>
  \<^verbatim>\<open>toLowerCase\<close> on these units: A to Z and the capital letters of the Latin-1
  block (192 to 222 but the multiplication sign 215) move up by 32.
\<close>

definition lower_unit :: "char \<Rightarrow> char" where
  "lower_unit c =
     (if is_upper c \<or> (192 \<le> unit_code c \<and> unit_code c \<le> 222 \<and> unit_code c \<noteq> 215)
      then char_of (unit_code c + 32) else c)"

definition toLowerCase :: "string \<Rightarrow> string" where
  "toLowerCase s = map lower_unit s"

definition trim :: "string \<Rightarrow> string" where
  "trim s = rev (dropWhile is_space (rev (dropWhile is_space s)))"

section \<open>Slug derivation\<close>

text \<open>
  \<^verbatim>\<open>generateSlug\<close> of \<^verbatim>\<open>event.model.ts\<close>:
  \<^verbatim>\<open>
  title.toLowerCase().trim()
    .replace(/[^\w\s-]/g, '')
    .replace(/\s+/g, '-')
    .replace(/-+/g, '-')
  \<close>
  The first replacement deletes every unit that is neither a word unit, white space nor
  a hyphen. The second puts one hyphen for every maximal run of white space, the third
  one hyphen for every maximal run of hyphens.
\<close>

definition strip_special :: "string \<Rightarrow> string" where
  "strip_special s = filter (\<lambda>c. is_word c \<or> is_space c \<or> c = CHR ''-'') s"

function spaces_to_hyphen :: "string \<Rightarrow> string" where
  "spaces_to_hyphen [] = []"
| "spaces_to_hyphen (c # cs) =
     (if is_space c then CHR ''-'' # spaces_to_hyphen (dropWhile is_space cs)
      else c # spaces_to_hyphen cs)"
  by pat_completeness auto
termination
  by (relation "measure length") (auto simp: length_dropWhile_le le_imp_less_Suc)

function collapse_hyphens :: "string \<Rightarrow> string" where
  "collapse_hyphens [] = []"
| "collapse_hyphens (c # cs) =
     (if c = CHR ''-'' then CHR ''-'' # collapse_hyphens (dropWhile (\<lambda>d. d = CHR ''-'') cs)
      else c # collapse_hyphens cs)"
  by pat_completeness auto
termination
  by (relation "measure length") (auto simp: length_dropWhile_le le_imp_less_Suc)

definition generateSlug :: "string \<Rightarrow> string" where
  "generateSlug title =
     collapse_hyphens (spaces_to_hyphen (strip_special (trim (toLowerCase title))))"

section \<open>Time normalization\<close>

text \<open>
  A thrown \<^verbatim>\<open>Error\<close> is a value carrying its message; a function that can throw
  returns \<open>error + 'a\<close>, \<open>Inl\<close> for the throw.
\<close>

datatype error = Error (message: string)

text \<open>
  \<^verbatim>\<open>toUpperCase\<close> on the units below 256: a to z and the small letters of the
  Latin-1 block (224 to 254 but the division sign 247) move down by 32, and the sharp s
  (223) becomes \<^verbatim>\<open>SS\<close>. The capitals of the micro sign (181) and of y with
  diaeresis (255) lie above 255; the model leaves these two units as they are, which
  changes no result below: like their capitals they are neither a digit, a colon, white
  space nor a letter of \<^verbatim>\<open>AM\<close> and \<^verbatim>\<open>PM\<close>, and the error message quotes
  the input as given.
\<close>

definition upper_unit :: "char \<Rightarrow> string" where
  "upper_unit c =
     (if is_lower c \<or> (224 \<le> unit_code c \<and> unit_code c \<le> 254 \<and> unit_code c \<noteq> 247)
      then [char_of (unit_code c - 32)]
      else if unit_code c = 223 then ''SS'' else [c])"

definition toUpperCase :: "string \<Rightarrow> string" where
  "toUpperCase s = concat (map upper_unit s)"

text \<open>
  The two regular expressions of \<^verbatim>\<open>normalizeTime\<close> share the prefix
  \<^verbatim>\<open>^(\d{1,2}):(\d{2})\<close>. \<open>hour_part\<close> reads one or two digits and the colon,
  \<open>minute_part\<close> two digits; each returns its capture group and the rest of the input.
  \<^verbatim>\<open>/^(\d{1,2}):(\d{2})$/\<close> then wants the rest empty, and
  \<^verbatim>\<open>/^(\d{1,2}):(\d{2})\s*(AM|PM)$/\<close> wants it to be white space followed by
  exactly \<^verbatim>\<open>AM\<close> or \<^verbatim>\<open>PM\<close>.
\<close>

fun hour_part :: "string \<Rightarrow> (string \<times> string) option" where
  "hour_part (h1 # h2 # c # r) =
     (if is_digit h1 \<and> is_digit h2 \<and> c = CHR '':'' then Some ([h1, h2], r)
      else if is_digit h1 \<and> h2 = CHR '':'' then Some ([h1], c # r)
      else None)"
| "hour_part [h1, c] = (if is_digit h1 \<and> c = CHR '':'' then Some ([h1], []) else None)"
| "hour_part _ = None"

fun minute_part :: "string \<Rightarrow> (string \<times> string) option" where
  "minute_part (m1 # m2 # r) = (if is_digit m1 \<and> is_digit m2 then Some ([m1, m2], r) else None)"
| "minute_part _ = None"

definition time24Match :: "string \<Rightarrow> (string \<times> string) option" where
  "time24Match s =
     (case hour_part s of
        None \<Rightarrow> None
      | Some (h, r) \<Rightarrow>
          (case minute_part r of
             None \<Rightarrow> None
           | Some (m, r') \<Rightarrow> if r' = [] then Some (h, m) else None))"

definition time12Match :: "string \<Rightarrow> (string \<times> string \<times> string) option" where
  "time12Match s =
     (case hour_part s of
        None \<Rightarrow> None
      | Some (h, r) \<Rightarrow>
          (case minute_part r of
             None \<Rightarrow> None
           | Some (m, r') \<Rightarrow>
               (let p = dropWhile is_space r'
                in if p = ''AM'' \<or> p = ''PM'' then Some (h, m, p) else None)))"

text \<open>
  \<^verbatim>\<open>parseInt(s, 10)\<close> is only applied to a capture group of digits, and
  \<^verbatim>\<open>toString\<close> to a natural number; \<^verbatim>\<open>padStart\<close> adds the fill unit on the
  left up to the given length.
\<close>

definition digit_value :: "char \<Rightarrow> nat" where
  "digit_value c = unit_code c - 48"

definition parseInt10 :: "string \<Rightarrow> nat" where
  "parseInt10 s = foldl (\<lambda>n c. 10 * n + digit_value c) 0 s"

definition digit_unit :: "nat \<Rightarrow> char" where
  "digit_unit d = char_of (48 + d)"

function toString :: "nat \<Rightarrow> string" where
  "toString n = (if n < 10 then [digit_unit n] else toString (n div 10) @ [digit_unit (n mod 10)])"
  by pat_completeness auto
termination
  by (relation "measure id") auto

declare toString.simps [simp del]

definition padStart :: "nat \<Rightarrow> char \<Rightarrow> string \<Rightarrow> string" where
  "padStart n c s = replicate (n - length s) c @ s"

text \<open>The template \<^verbatim>\<open>`${hours.toString().padStart(2, '0')}:${minutes}`\<close>.\<close>

definition hhmm :: "nat \<Rightarrow> string \<Rightarrow> string" where
  "hhmm hours minutes = padStart 2 (CHR ''0'') (toString hours) @ '':'' @ minutes"

text \<open>
  \<^verbatim>\<open>normalizeTime\<close>: the 24-hour branch returns only when the hour is at most 23 and
  otherwise falls through to the 12-hour branch, which adds 12 to a PM hour other than
  12, turns 12 AM into 0 and checks no range.
\<close>

definition normalizeTime :: "string \<Rightarrow> error + string" where
  "normalizeTime timeStr =
     (let trimmed = toUpperCase (trim timeStr);
          in24 = (case time24Match trimmed of
                    None \<Rightarrow> None
                  | Some (h, minutes) \<Rightarrow>
                      (let hours = parseInt10 h
                       in if 0 \<le> hours \<and> hours \<le> 23 then Some (hhmm hours minutes) else None))
      in case in24 of
           Some r \<Rightarrow> Inr r
         | None \<Rightarrow>
             (case time12Match trimmed of
                Some (h, minutes, period) \<Rightarrow>
                  (let hours = parseInt10 h;
                       hours' = (if period = ''PM'' \<and> hours \<noteq> 12 then hours + 12
                                 else if period = ''AM'' \<and> hours = 12 then 0
                                 else hours)
                   in Inr (hhmm hours' minutes))
              | None \<Rightarrow> Inl (Error (''Invalid time format: '' @ timeStr))))"

section \<open>Date normalization\<close>

text \<open>
  \<^verbatim>\<open>normalizeDateToISO\<close> tests the input against \<^verbatim>\<open>/^\d{4}-\d{2}-\d{2}$/\<close>,
  splits a matching input at the hyphens and converts the three parts with
  \<^verbatim>\<open>Number\<close> (here only applied to strings of digits).
\<close>

definition strict_date :: "string \<Rightarrow> bool" where
  "strict_date s =
     (length s = 10 \<and> list_all is_digit (take 4 s) \<and> s ! 4 = CHR ''-''
      \<and> list_all is_digit (take 2 (drop 5 s)) \<and> s ! 7 = CHR ''-''
      \<and> list_all is_digit (drop 8 s))"

fun split_on :: "char \<Rightarrow> string \<Rightarrow> string list" where
  "split_on sep [] = [[]]"
| "split_on sep (c # cs) =
     (if c = sep then [] # split_on sep cs
      else (case split_on sep cs of [] \<Rightarrow> [[c]] | p # ps \<Rightarrow> (c # p) # ps))"

definition Number :: "string \<Rightarrow> int" where
  "Number s = int (parseInt10 s)"

text \<open>
  The built-in \<^verbatim>\<open>Date\<close> follows ECMA-262. A time value is a number of
  milliseconds since 1 January 1970 UTC. \<^verbatim>\<open>Date.UTC(year, month, date)\<close> is
  \<^verbatim>\<open>TimeClip(MakeDate(MakeDay(MakeFullYear(year), month, date), 0))\<close>:
  \<^verbatim>\<open>MakeFullYear\<close> reads a year from 0 to 99 as 1900 plus that year,
  \<^verbatim>\<open>MakeDay\<close> carries months outside 0 to 11 into the year and counts the day of
  the month from the first of the month without a range check, and \<^verbatim>\<open>TimeClip\<close>
  gives \<^verbatim>\<open>NaN\<close> (here \<open>None\<close>) beyond 8.64e15 milliseconds.
\<close>

definition msPerDay :: int where
  "msPerDay = 86400000"

definition Day :: "int \<Rightarrow> int" where
  "Day t = t div msPerDay"

definition DayFromYear :: "int \<Rightarrow> int" where
  "DayFromYear y = 365 * (y - 1970) + (y - 1969) div 4 - (y - 1901) div 100 + (y - 1601) div 400"

definition InLeapYear :: "int \<Rightarrow> bool" where
  "InLeapYear y =
     (if y mod 4 \<noteq> 0 then False else if y mod 100 \<noteq> 0 then True
      else if y mod 400 \<noteq> 0 then False else True)"

definition month_start :: "bool \<Rightarrow> int \<Rightarrow> int" where
  "month_start leap m =
     (if m = 0 then 0 else if m = 1 then 31
      else (if leap then 1 else 0) +
        (if m = 2 then 59 else if m = 3 then 90 else if m = 4 then 120 else if m = 5 then 151
         else if m = 6 then 181 else if m = 7 then 212 else if m = 8 then 243
         else if m = 9 then 273 else if m = 10 then 304 else if m = 11 then 334 else 365))"

definition MakeDay :: "int \<Rightarrow> int \<Rightarrow> int \<Rightarrow> int" where
  "MakeDay year month date =
     (let ym = year + month div 12; mn = month mod 12
      in DayFromYear ym + month_start (InLeapYear ym) mn + date - 1)"

definition MakeFullYear :: "int \<Rightarrow> int" where
  "MakeFullYear y = (if 0 \<le> y \<and> y \<le> 99 then 1900 + y else y)"

definition TimeClip :: "int \<Rightarrow> int option" where
  "TimeClip t = (if \<bar>t\<bar> > 8640000000000000 then None else Some t)"

definition Date_UTC :: "int \<Rightarrow> int \<Rightarrow> int \<Rightarrow> int option" where
  "Date_UTC year month date = TimeClip (MakeDay (MakeFullYear year) month date * msPerDay)"

text \<open>
  \<^verbatim>\<open>YearFromTime(t)\<close> is the largest year whose first day is not after the day
  of \<open>t\<close>. The model finds it by counting up from a year that is not after it; the
  count ends because the first days of successive years are at least 365 days apart.
\<close>

lemma div_succ:
  fixes x k :: int
  assumes "0 < k"
  shows "(x + 1) div k = (if (x + 1) mod k = 0 then x div k + 1 else x div k)"
proof (cases "x mod k = k - 1")
  case True
  have e: "x = k * (x div k) + x mod k" by simp
  have "x + 1 = k * (x div k) + k" using e True by linarith
  then have "x + 1 = k * (x div k + 1) + 0" by (simp add: algebra_simps)
  then have "(x + 1) div k = x div k + 1" "(x + 1) mod k = 0"
    using assms int_div_pos_eq [of "x + 1" k "x div k + 1" 0]
      int_mod_pos_eq [of "x + 1" k "x div k + 1" 0] by auto
  then show ?thesis by simp
next
  case False
  have b: "0 \<le> x mod k" "x mod k < k" using assms by simp_all
  with False have r: "0 \<le> x mod k + 1" "x mod k + 1 < k" by linarith+
  have e: "x = k * (x div k) + x mod k" by simp
  have "x + 1 = k * (x div k) + (x mod k + 1)"
    using e by linarith
  then have "(x + 1) div k = x div k" "(x + 1) mod k = x mod k + 1"
    using r int_div_pos_eq [of "x + 1" k "x div k" "x mod k + 1"]
      int_mod_pos_eq [of "x + 1" k "x div k" "x mod k + 1"] by auto
  with b show ?thesis by simp
qed

lemma year_mod_shift:
  "(y - 1968) mod 4 = y mod 4" "(y - 1900) mod 100 = y mod 100" "(y - 1600) mod 400 = y mod 400"
  for y :: int
  using mod_mult_self1 [of y "- 492" 4] mod_mult_self1 [of y "- 19" 100]
    mod_mult_self1 [of y "- 4" 400] by simp_all

lemma century_is_fourth: "y mod 100 = 0 \<Longrightarrow> y mod 4 = 0" for y :: int
proof -
  assume "y mod 100 = 0"
  then have "100 dvd y" by (simp add: dvd_eq_mod_eq_0)
  moreover have "(4::int) dvd 100" by simp
  ultimately have "4 dvd y" by (rule dvd_trans [rotated])
  then show ?thesis by (simp add: dvd_eq_mod_eq_0)
qed

lemma DayFromYear_next:
  "DayFromYear (y + 1) = DayFromYear y + (if InLeapYear y then 366 else 365)"
proof -
  have a: "(y + 1 - 1969) div 4 = (y - 1969) div 4 + (if y mod 4 = 0 then 1 else 0)"
    using div_succ [of 4 "y - 1969"] year_mod_shift(1) [of y] by (simp add: algebra_simps)
  have b: "(y + 1 - 1901) div 100 = (y - 1901) div 100 + (if y mod 100 = 0 then 1 else 0)"
    using div_succ [of 100 "y - 1901"] year_mod_shift(2) [of y] by (simp add: algebra_simps)
  have c: "(y + 1 - 1601) div 400 = (y - 1601) div 400 + (if y mod 400 = 0 then 1 else 0)"
    using div_succ [of 400 "y - 1601"] year_mod_shift(3) [of y] by (simp add: algebra_simps)
  have d: "y mod 4 = 0" if "y mod 100 = 0"
    using that by (rule century_is_fourth)
  have e: "y mod 100 = 0" if "y mod 400 = 0"
  proof -
    from that have "400 dvd y" by (simp add: dvd_eq_mod_eq_0)
    moreover have "(100::int) dvd 400" by simp
    ultimately have "100 dvd y" by (rule dvd_trans [rotated])
    then show ?thesis by (simp add: dvd_eq_mod_eq_0)
  qed
  show ?thesis
    unfolding DayFromYear_def InLeapYear_def a b c using d e by auto
qed

function year_up :: "int \<Rightarrow> int \<Rightarrow> int" where
  "year_up d y = (if DayFromYear (y + 1) \<le> d then year_up d (y + 1) else y)"
  by pat_completeness auto
termination
proof (relation "measure (\<lambda>(d, y). nat (d + 1 - DayFromYear (y + 1)))")
  show "wf (measure (\<lambda>(d, y). nat (d + 1 - DayFromYear (y + 1))))" by simp
next
  fix d y :: int
  assume "DayFromYear (y + 1) \<le> d"
  then show "((d, y + 1), (d, y)) \<in> measure (\<lambda>(d, y). nat (d + 1 - DayFromYear (y + 1)))"
    using DayFromYear_next [of "y + 1"] by (simp split: if_splits)
qed

declare year_up.simps [simp del]

definition YearFromTime :: "int \<Rightarrow> int" where
  "YearFromTime t =
     (let d = Day t in year_up d (1970 + (if 0 \<le> d then d div 366 else d div 365)))"

definition DayWithinYear :: "int \<Rightarrow> int" where
  "DayWithinYear t = Day t - DayFromYear (YearFromTime t)"

definition MonthFromTime :: "int \<Rightarrow> int" where
  "MonthFromTime t =
     (let leap = InLeapYear (YearFromTime t); d = DayWithinYear t
      in if d < month_start leap 1 then 0 else if d < month_start leap 2 then 1
         else if d < month_start leap 3 then 2 else if d < month_start leap 4 then 3
         else if d < month_start leap 5 then 4 else if d < month_start leap 6 then 5
         else if d < month_start leap 7 then 6 else if d < month_start leap 8 then 7
         else if d < month_start leap 9 then 8 else if d < month_start leap 10 then 9
         else if d < month_start leap 11 then 10 else 11)"

definition DateFromTime :: "int \<Rightarrow> int" where
  "DateFromTime t =
     DayWithinYear t - month_start (InLeapYear (YearFromTime t)) (MonthFromTime t) + 1"

text \<open>
  \<^verbatim>\<open>toISOString\<close> writes \<^verbatim>\<open>YYYY-MM-DDTHH:mm:ss.sssZ\<close>, the year on four
  digits from 0 to 9999 and with a sign and six digits otherwise;
  \<^verbatim>\<open>.split('T')[0]\<close> keeps what stands before the first \<^verbatim>\<open>T\<close>.
\<close>

definition pad_number :: "nat \<Rightarrow> int \<Rightarrow> string" where
  "pad_number n v = padStart n (CHR ''0'') (toString (nat v))"

definition iso_year :: "int \<Rightarrow> string" where
  "iso_year y =
     (if 0 \<le> y \<and> y \<le> 9999 then pad_number 4 y
      else (if y < 0 then ''-'' else ''+'') @ pad_number 6 \<bar>y\<bar>)"

definition toISOString :: "int \<Rightarrow> string" where
  "toISOString t =
     (let ms = t mod msPerDay
      in iso_year (YearFromTime t) @ ''-'' @ pad_number 2 (MonthFromTime t + 1) @ ''-''
         @ pad_number 2 (DateFromTime t) @ ''T'' @ pad_number 2 (ms div 3600000) @ '':''
         @ pad_number 2 (ms div 60000 mod 60) @ '':'' @ pad_number 2 (ms div 1000 mod 60)
         @ ''.'' @ pad_number 3 (ms mod 1000) @ ''Z'')"

definition iso_date_part :: "int \<Rightarrow> string" where
  "iso_date_part t = (case split_on (CHR ''T'') (toISOString t) of [] \<Rightarrow> [] | p # ps \<Rightarrow> p)"

text \<open>
  An input that is not a strict literal goes to \<^verbatim>\<open>new Date(dateStr)\<close>, whose
  parsing is left to the host; \<open>dateParse\<close> stands for it and answers the time value,
  or \<open>None\<close> for an invalid date.
\<close>

definition normalizeDateToISO :: "(string \<Rightarrow> int option) \<Rightarrow> string \<Rightarrow> error + string" where
  "normalizeDateToISO dateParse dateStr =
     (let parsed =
            (if strict_date dateStr
             then (case map Number (split_on (CHR ''-'') dateStr) of
                     [year, month, day] \<Rightarrow> Date_UTC year (month - 1) day
                   | _ \<Rightarrow> None)
             else dateParse dateStr)
      in case parsed of
           None \<Rightarrow> Inl (Error (''Invalid date format: '' @ dateStr))
         | Some t \<Rightarrow> Inr (iso_date_part t))"

section \<open>The Event pre-save hook\<close>

text \<open>
  An Event document with the fields the hook reads or writes: \<open>ident\<close> is its
  \<^verbatim>\<open>_id\<close>, \<open>image'\<close> its \<^verbatim>\<open>image\<close>, and \<open>isNew\<close> and the list of
  modified paths are what Mongoose answers for \<^verbatim>\<open>this.isNew\<close> and
  \<^verbatim>\<open>this.isModified(path)\<close>. The collection is the list of the stored documents.
\<close>

record event =
  ident :: string
  title :: string
  slug :: string
  description :: string
  overview :: string
  image' :: string
  venue :: string
  location :: string
  date :: string
  time :: string
  mode :: string
  audience :: string
  agenda :: "string list"
  organizer :: string
  tags :: "string list"
  isNew :: bool
  modified :: "string list"

definition isModified :: "event \<Rightarrow> string \<Rightarrow> bool" where
  "isModified doc path = (path \<in> set (modified doc))"

text \<open>\<^verbatim>\<open>EventModel.exists({ slug, _id: { $ne: this._id } })\<close>.\<close>

definition slug_exists :: "event list \<Rightarrow> string \<Rightarrow> string \<Rightarrow> bool" where
  "slug_exists db s i = list_ex (\<lambda>e. slug e = s \<and> ident e \<noteq> i) db"

text \<open>The template \<^verbatim>\<open>`${baseSlug}-${counter}`\<close>.\<close>

definition candidate :: "string \<Rightarrow> nat \<Rightarrow> string" where
  "candidate baseSlug counter = baseSlug @ ''-'' @ toString counter"

text \<open>
  The loop \<^verbatim>\<open>while (await EventModel.exists(...)) { slug = ...; counter++ }\<close> ends on
  every collection: distinct counters give distinct candidates, so only finitely many
  of them are taken, and \<open>probes_left\<close> goes down with every round.
\<close>

lemma digit_value_unit: "d < 10 \<Longrightarrow> digit_value (digit_unit d) = d"
  by (simp add: digit_value_def digit_unit_def unit_code_def)

lemma parseInt10_snoc: "parseInt10 (s @ [c]) = 10 * parseInt10 s + digit_value c"
  by (simp add: parseInt10_def)

lemma parseInt10_toString: "parseInt10 (toString n) = n"
proof (induction n rule: toString.induct)
  case (1 n)
  show ?case
  proof (cases "n < 10")
    case True
    then show ?thesis
      by (simp add: toString.simps [of n] parseInt10_def digit_value_unit)
  next
    case False
    then show ?thesis
      using 1 by (simp add: toString.simps [of n] parseInt10_snoc digit_value_unit)
  qed
qed

lemma candidate_inj: "candidate b j = candidate b k \<Longrightarrow> j = k"
  by (metis candidate_def same_append_eq parseInt10_toString)

lemma finite_taken: "finite {k. n \<le> k \<and> slug_exists db (candidate b k) i}"
proof -
  have "{k. n \<le> k \<and> slug_exists db (candidate b k) i} \<subseteq> candidate b -` (slug ` set db)"
    by (force simp: slug_exists_def list_ex_iff)
  moreover have "finite (candidate b -` (slug ` set db))"
    by (intro finite_vimageI) (auto simp: inj_on_def dest: candidate_inj)
  ultimately show ?thesis
    by (rule finite_subset)
qed

definition probes_left :: "event list \<Rightarrow> string \<Rightarrow> string \<Rightarrow> string \<Rightarrow> nat \<Rightarrow> nat" where
  "probes_left db i b s n =
     2 * card {k. n \<le> k \<and> slug_exists db (candidate b k) i} + (if slug_exists db s i then 1 else 0)"

lemma probes_left_decreases:
  assumes "slug_exists db s i"
  shows "probes_left db i b (candidate b n) (Suc n) < probes_left db i b s n"
proof -
  let ?E = "\<lambda>k. slug_exists db (candidate b k) i"
  have split: "{k. n \<le> k \<and> ?E k} = (if ?E n then insert n {k. Suc n \<le> k \<and> ?E k} else {k. Suc n \<le> k \<and> ?E k})"
    by (auto simp: Suc_le_eq le_less)
  have fin: "finite {k. Suc n \<le> k \<and> ?E k}"
    by (rule finite_taken)
  show ?thesis
  proof (cases "?E n")
    case True
    then have "card {k. n \<le> k \<and> ?E k} = Suc (card {k. Suc n \<le> k \<and> ?E k})"
      using split fin by simp
    with True assms show ?thesis
      by (simp add: probes_left_def)
  next
    case False
    then have "card {k. n \<le> k \<and> ?E k} = card {k. Suc n \<le> k \<and> ?E k}"
      using split by simp
    with False assms show ?thesis
      by (simp add: probes_left_def)
  qed
qed

function probe_slug :: "event list \<Rightarrow> string \<Rightarrow> string \<Rightarrow> string \<Rightarrow> nat \<Rightarrow> string" where
  "probe_slug db i baseSlug s counter =
     (if slug_exists db s i
      then probe_slug db i baseSlug (candidate baseSlug counter) (counter + 1)
      else s)"
  by pat_completeness auto
termination
  by (relation "measure (\<lambda>(db, i, b, s, n). probes_left db i b s n)")
    (auto simp: probes_left_decreases)

declare probe_slug.simps [simp del]

text \<open>
  The required-field loop throws for the first listed field whose trimmed value is
  empty (the listed fields are strings, so \<^verbatim>\<open>typeof value === 'string'\<close> holds).
\<close>

definition requiredFields :: "(string \<times> (event \<Rightarrow> string)) list" where
  "requiredFields =
     [(''title'', title), (''description'', description), (''overview'', overview),
      (''image'', image'), (''venue'', venue), (''location'', location), (''date'', date),
      (''time'', time), (''mode'', mode), (''audience'', audience), (''organizer'', organizer)]"

fun check_required :: "(string \<times> (event \<Rightarrow> string)) list \<Rightarrow> event \<Rightarrow> error option" where
  "check_required [] doc = None"
| "check_required ((field, val) # fs) doc =
     (if trim (val doc) = [] then Some (Error (field @ '' cannot be empty''))
      else check_required fs doc)"

text \<open>
  The hook changes the document in place and ends with \<^verbatim>\<open>next()\<close> or, from the
  \<^verbatim>\<open>catch\<close>, with \<^verbatim>\<open>next(error)\<close>: the model returns the document as the hook
  leaves it and the error passed on, if any.
\<close>

definition assign_slug :: "event list \<Rightarrow> event \<Rightarrow> event" where
  "assign_slug db doc =
     (if isNew doc \<or> isModified doc ''title''
      then (let baseSlug = generateSlug (title doc)
            in doc\<lparr>slug := probe_slug db (ident doc) baseSlug baseSlug 1\<rparr>)
      else doc)"

definition eventPreSave :: "(string \<Rightarrow> int option) \<Rightarrow> event list \<Rightarrow> event \<Rightarrow> event \<times> error option" where
  "eventPreSave dateParse db doc =
     (let doc1 = assign_slug db doc
      in case (if isNew doc1 \<or> isModified doc1 ''date''
               then normalizeDateToISO dateParse (date doc1) else Inr (date doc1)) of
           Inl e \<Rightarrow> (doc1, Some e)
         | Inr d \<Rightarrow>
             (let doc2 = doc1\<lparr>date := d\<rparr>
              in case (if isNew doc2 \<or> isModified doc2 ''time''
                       then normalizeTime (time doc2) else Inr (time doc2)) of
                   Inl e \<Rightarrow> (doc2, Some e)
                 | Inr t \<Rightarrow>
                     (let doc3 = doc2\<lparr>time := t\<rparr>
                      in (doc3, check_required requiredFields doc3))))"

text \<open>
  Saving runs the hook and, when it ends without an error, writes the document: a new
  one is added to the collection, an existing one replaces the stored document of the
  same \<^verbatim>\<open>_id\<close>. The unique index on \<^verbatim>\<open>slug\<close> belongs to the storage layer and
  is not part of this model.
\<close>

definition write_event :: "event list \<Rightarrow> event \<Rightarrow> event \<Rightarrow> event list" where
  "write_event db doc stored =
     (if isNew doc then db @ [stored]
      else map (\<lambda>e. if ident e = ident doc then stored else e) db)"

definition save_event :: "(string \<Rightarrow> int option) \<Rightarrow> event list \<Rightarrow> event \<Rightarrow> (error + event) \<times> event list" where
  "save_event dateParse db doc =
     (case eventPreSave dateParse db doc of
        (doc', Some e) \<Rightarrow> (Inl e, db)
      | (doc', None) \<Rightarrow>
          (let stored = doc'\<lparr>isNew := False, modified := []\<rparr>
           in (Inr stored, write_event db doc stored)))"

section \<open>The Booking pre-save hook\<close>

text \<open>
  A Booking document carries the \<^verbatim>\<open>_id\<close> of its event (an ObjectId, written as
  the string that \<^verbatim>\<open>${this.eventId}\<close> gives) and an email.
\<close>

record booking =
  eventId :: string
  email :: string

text \<open>
  The email of a document is the value as the setters of the schema left it when it was
  assigned: \<^verbatim>\<open>trim\<close> and \<^verbatim>\<open>lowercase\<close>, of which the one declared last runs
  first. \<open>new_Booking\<close> is the document that
  \<^verbatim>\<open>new Booking({ eventId, email })\<close> makes.
\<close>

definition set_email :: "string \<Rightarrow> string" where
  "set_email v = trim (toLowerCase v)"

definition new_Booking :: "string \<Rightarrow> string \<Rightarrow> booking" where
  "new_Booking i v = \<lparr>eventId = i, email = set_email v\<rparr>"

text \<open>
  \<^verbatim>\<open>EMAIL_REGEX = /^[^\s@]+@[^\s@]+\.[^\s@]+$/\<close>. The local part is the longest
  prefix without white space and \<^verbatim>\<open>@\<close>, it is not empty and an \<^verbatim>\<open>@\<close> follows
  it; what follows the \<^verbatim>\<open>@\<close> has no white space and no \<^verbatim>\<open>@\<close>, and has a dot
  that is neither its first nor its last unit.
\<close>

definition email_unit :: "char \<Rightarrow> bool" where
  "email_unit c = (\<not> is_space c \<and> c \<noteq> CHR ''@'')"

definition EMAIL_REGEX_test :: "string \<Rightarrow> bool" where
  "EMAIL_REGEX_test s =
     (takeWhile email_unit s \<noteq> [] \<and>
      (case dropWhile email_unit s of
         [] \<Rightarrow> False
       | c # host \<Rightarrow> c = CHR ''@'' \<and> list_all email_unit host \<and> CHR ''.'' \<in> set (butlast (tl host))))"

text \<open>
  The storage holds the two collections and, to state what happens before any storage
  access, the list of the operations performed on it so far.
\<close>

datatype storage_op = EventExists string | BookingInsert booking

record store =
  events :: "event list"
  bookings :: "booking list"
  oplog :: "storage_op list"

text \<open>\<^verbatim>\<open>Event.exists({ _id: this.eventId })\<close>.\<close>

definition event_exists :: "event list \<Rightarrow> string \<Rightarrow> bool" where
  "event_exists db i = list_ex (\<lambda>e. ident e = i) db"

text \<open>
  The hook answers the error it passes to \<^verbatim>\<open>next\<close>, if any, and the lookups it
  made.
\<close>

definition bookingPreSave :: "event list \<Rightarrow> booking \<Rightarrow> error option \<times> storage_op list" where
  "bookingPreSave db b =
     (if \<not> EMAIL_REGEX_test (email b)
      then (Some (Error (''Invalid email format: '' @ email b)), [])
      else (let eventExists = event_exists db (eventId b)
            in if \<not> eventExists
               then (Some (Error (''Event with ID '' @ eventId b @ '' does not exist'')),
                     [EventExists (eventId b)])
               else (None, [EventExists (eventId b)])))"

text \<open>
  \<^verbatim>\<open>save()\<close> validates the document against the schema before it runs the hooks
  registered with \<^verbatim>\<open>pre('save')\<close>. The validators of a path run in turn,
  \<^verbatim>\<open>required\<close> first, and the first that fails gives the \<^verbatim>\<open>ValidatorError\<close>
  of the path, which carries the message of the validator, the path and the value
  refused. For the \<^verbatim>\<open>email\<close> path these are \<^verbatim>\<open>required\<close>, which refuses the
  empty string, and the validator of lines 28 to 31, which applies
  \<^verbatim>\<open>EMAIL_REGEX\<close>. The document holds an ObjectId in \<^verbatim>\<open>eventId\<close>, so that
  path passes.
\<close>

datatype ValidatorError =
  ValidatorError (validator_message: string) (validator_path: string) (validator_value: string)

definition validate_email :: "string \<Rightarrow> ValidatorError option" where
  "validate_email v =
     (if v = [] then Some (ValidatorError ''Email is required'' ''email'' v)
      else if \<not> EMAIL_REGEX_test v then Some (ValidatorError ''Invalid email format'' ''email'' v)
      else None)"

definition validateBooking :: "booking \<Rightarrow> ValidatorError list" where
  "validateBooking b = (case validate_email (email b) of None \<Rightarrow> [] | Some e \<Rightarrow> [e])"

text \<open>
  A save is rejected either with the \<^verbatim>\<open>ValidationError\<close> of the schema, whose
  message is \<^verbatim>\<open>Booking validation failed: \<close> followed by \<^verbatim>\<open>path: message\<close>
  for each path refused, separated by commas, or with the error that a hook passed to
  \<^verbatim>\<open>next\<close>.
\<close>

datatype save_error =
  ValidationError (validation_message: string) (errors: "ValidatorError list")
| HookError error

fun path_messages :: "ValidatorError list \<Rightarrow> string" where
  "path_messages [] = []"
| "path_messages [e] = validator_path e @ '': '' @ validator_message e"
| "path_messages (e # es) = validator_path e @ '': '' @ validator_message e @ '', '' @ path_messages es"

definition validation_failed :: "ValidatorError list \<Rightarrow> save_error" where
  "validation_failed es = ValidationError (''Booking validation failed: '' @ path_messages es) es"

text \<open>
  Saving validates, then runs the hook, and inserts the document when neither has an
  error. A failed validation ends the save before the hook runs.
\<close>

definition save_booking :: "store \<Rightarrow> booking \<Rightarrow> (save_error + booking) \<times> store" where
  "save_booking st b =
     (case validateBooking b of
        e # es \<Rightarrow> (Inl (validation_failed (e # es)), st)
      | [] \<Rightarrow>
          (case bookingPreSave (events st) b of
             (Some e, ops) \<Rightarrow> (Inl (HookError e), st\<lparr>oplog := oplog st @ ops\<rparr>)
           | (None, ops) \<Rightarrow>
               (Inr b, st\<lparr>bookings := bookings st @ [b],
                         oplog := oplog st @ ops @ [BookingInsert b]\<rparr>)))"

section \<open>The connection cache\<close>

text \<open>
  \<^verbatim>\<open>lib/mongodb.ts\<close> keeps one \<^verbatim>\<open>{ conn, promise }\<close> object for the process.
  A promise is modelled by the outcome it settles to, and \<^verbatim>\<open>await\<close> by reading that
  outcome: calls run one after the other, each to its end. \<open>connect uri n\<close> is the
  outcome of the call number \<open>n\<close> to \<^verbatim>\<open>mongoose.connect(uri, ...)\<close>, and the
  runtime counts these calls.
\<close>

datatype 'c promise = Promise (settled: "error + 'c")

record 'c MongooseCache =
  conn :: "'c option"
  promise :: "'c promise option"

record 'c runtime =
  cached :: "'c MongooseCache"
  attempts :: nat

definition connectToDatabase ::
  "string \<Rightarrow> (string \<Rightarrow> nat \<Rightarrow> error + 'c) \<Rightarrow> 'c runtime \<Rightarrow> (error + 'c) \<times> 'c runtime" where
  "connectToDatabase uri connect rt =
     (case conn (cached rt) of
        Some c \<Rightarrow> (Inr c, rt)
      | None \<Rightarrow>
          (let (p, rt1) =
                 (case promise (cached rt) of
                    None \<Rightarrow>
                      (let p = Promise (connect uri (attempts rt))
                       in (p, rt\<lparr>cached := (cached rt)\<lparr>promise := Some p\<rparr>,
                                  attempts := attempts rt + 1\<rparr>))
                  | Some p \<Rightarrow> (p, rt))
           in case settled p of
                Inl e \<Rightarrow> (Inl e, rt1)
              | Inr c \<Rightarrow> (Inr c, rt1\<lparr>cached := (cached rt1)\<lparr>conn := Some c\<rparr>\<rparr>)))"

text \<open>
  Loading the module reads \<^verbatim>\<open>process.env.MONGODB_URI\<close> and throws at once when it is
  undefined or empty; otherwise it takes the cache of \<^verbatim>\<open>global.mongoose\<close> or a new
  empty one. \<open>load_then_connect\<close> is a program that imports the module and calls
  \<^verbatim>\<open>connectToDatabase\<close> once.
\<close>

definition missing_uri :: error where
  "missing_uri = Error ''Please define the MONGODB_URI environment variable''"

definition load_module ::
  "string option \<Rightarrow> 'c MongooseCache option \<Rightarrow> error + string \<times> 'c runtime" where
  "load_module MONGODB_URI global_mongoose =
     (case MONGODB_URI of
        None \<Rightarrow> Inl missing_uri
      | Some uri \<Rightarrow>
          if uri = [] then Inl missing_uri
          else Inr (uri,
                 \<lparr>cached = (case global_mongoose of
                               None \<Rightarrow> \<lparr>conn = None, promise = None\<rparr>
                             | Some c \<Rightarrow> c),
                  attempts = 0\<rparr>))"

datatype 'c run = LoadFailed error | FirstCall "(error + 'c) \<times> 'c runtime"

definition load_then_connect ::
  "string option \<Rightarrow> 'c MongooseCache option \<Rightarrow> (string \<Rightarrow> nat \<Rightarrow> error + 'c) \<Rightarrow> 'c run" where
  "load_then_connect MONGODB_URI global_mongoose connect =
     (case load_module MONGODB_URI global_mongoose of
        Inl e \<Rightarrow> LoadFailed e
      | Inr (uri, rt) \<Rightarrow> FirstCall (connectToDatabase uri connect rt))"

text \<open>
  The repository holds a second copy of the module, the last part of
  \<^verbatim>\<open>app/providers.tsx\<close> (lines 82 to 147), which keeps its cache in
  \<^verbatim>\<open>global.mongooseCache\<close>. It differs from \<^verbatim>\<open>lib/mongodb.ts\<close> in two places.
  Loading it reads no configuration and never throws: \<^verbatim>\<open>process.env.MONGODB_URI\<close>
  is read inside \<^verbatim>\<open>connectToDatabase\<close>, where a new promise is to be created, and
  the error is thrown there when it is undefined or empty (\<^verbatim>\<open>Validate MONGODB_URI at
  connection time, not module load\<close>). And the promise is awaited in a \<^verbatim>\<open>try\<close>
  whose \<^verbatim>\<open>catch\<close> sets \<^verbatim>\<open>cached.promise\<close> back to \<^verbatim>\<open>null\<close> before it
  throws the error again (\<^verbatim>\<open>Allow retry on failure\<close>).
\<close>

definition undefined_uri :: error where
  "undefined_uri = Error
     ''MONGODB_URI environment variable is not defined. Please add it to your .env.local file.''"

definition load_providers :: "'c MongooseCache option \<Rightarrow> 'c runtime" where
  "load_providers global_mongooseCache =
     \<lparr>cached = (case global_mongooseCache of
                  None \<Rightarrow> \<lparr>conn = None, promise = None\<rparr>
                | Some c \<Rightarrow> c),
      attempts = 0\<rparr>"

definition connectToDatabase_providers ::
  "string option \<Rightarrow> (string \<Rightarrow> nat \<Rightarrow> error + 'c) \<Rightarrow> 'c runtime \<Rightarrow> (error + 'c) \<times> 'c runtime" where
  "connectToDatabase_providers MONGODB_URI connect rt =
     (case conn (cached rt) of
        Some c \<Rightarrow> (Inr c, rt)
      | None \<Rightarrow>
          (case (case promise (cached rt) of
                   None \<Rightarrow>
                     (case MONGODB_URI of
                        None \<Rightarrow> Inl undefined_uri
                      | Some uri \<Rightarrow>
                          if uri = [] then Inl undefined_uri
                          else (let p = Promise (connect uri (attempts rt))
                                in Inr (p, rt\<lparr>cached := (cached rt)\<lparr>promise := Some p\<rparr>,
                                             attempts := attempts rt + 1\<rparr>)))
                 | Some p \<Rightarrow> Inr (p, rt)) of
             Inl e \<Rightarrow> (Inl e, rt)
           | Inr (p, rt1) \<Rightarrow>
               (case settled p of
                  Inl e \<Rightarrow> (Inl e, rt1\<lparr>cached := (cached rt1)\<lparr>promise := None\<rparr>\<rparr>)
                | Inr c \<Rightarrow> (Inr c, rt1\<lparr>cached := (cached rt1)\<lparr>conn := Some c\<rparr>\<rparr>))))"

definition load_then_connect_providers ::
  "string option \<Rightarrow> 'c MongooseCache option \<Rightarrow> (string \<Rightarrow> nat \<Rightarrow> error + 'c) \<Rightarrow> 'c run" where
  "load_then_connect_providers MONGODB_URI global_mongooseCache connect =
     FirstCall (connectToDatabase_providers MONGODB_URI connect (load_providers global_mongooseCache))"

section \<open>Notions of the statements and example inputs\<close>

text \<open>The units a slug is made of, and the absence of two hyphens in a row.\<close>

definition slug_unit :: "char \<Rightarrow> bool" where
  "slug_unit c = (is_lower c \<or> is_digit c \<or> c = CHR ''_'' \<or> c = CHR ''-'')"

fun no_double_hyphen :: "string \<Rightarrow> bool" where
  "no_double_hyphen (a # b # cs) =
     (if a = CHR ''-'' \<and> b = CHR ''-'' then False else no_double_hyphen (b # cs))"
| "no_double_hyphen cs = True"

text \<open>An hour below 100 written with two digits.\<close>

definition two_digits :: "nat \<Rightarrow> string" where
  "two_digits n = [digit_unit (n div 10), digit_unit (n mod 10)]"

text \<open>The spellings of the AM and PM markers that \<^verbatim>\<open>toUpperCase\<close> admits.\<close>

definition meridiem_markers :: "string list" where
  "meridiem_markers = [''AM'', ''Am'', ''aM'', ''am'', ''PM'', ''Pm'', ''pM'', ''pm'']"

text \<open>The days of month \<open>m\<close> (1 to 12) of a common or a leap year.\<close>

definition days_in_month :: "bool \<Rightarrow> int \<Rightarrow> int" where
  "days_in_month leap m =
     (if m = 2 then (if leap then 29 else 28)
      else if m = 4 \<or> m = 6 \<or> m = 9 \<or> m = 11 then 30 else 31)"

text \<open>
  A canonical date: a strict literal whose month is 1 to 12 and whose day is a day of
  that month in that year. Such a literal denotes a day of the calendar, counted like
  \<^verbatim>\<open>Day\<close> from 1 January 1970: the first day of its month and the days after it.
\<close>

definition calendar_literal :: "string \<Rightarrow> bool" where
  "calendar_literal s =
     (strict_date s \<and> 1 \<le> Number (take 2 (drop 5 s)) \<and> Number (take 2 (drop 5 s)) \<le> 12
      \<and> 1 \<le> Number (drop 8 s)
      \<and> Number (drop 8 s)
           \<le> days_in_month (InLeapYear (Number (take 4 s))) (Number (take 2 (drop 5 s))))"

definition month_first_day :: "int \<Rightarrow> int \<Rightarrow> int" where
  "month_first_day y m = DayFromYear y + month_start (InLeapYear y) (m - 1)"

definition literal_day :: "string \<Rightarrow> int" where
  "literal_day s =
     month_first_day (Number (take 4 s)) (Number (take 2 (drop 5 s))) + (Number (drop 8 s) - 1)"

text \<open>
  The day that the fields of a strict literal reach when they are carried over: months
  beyond 12 count on into the following years and month 00 is December of the year
  before; the day counts on from the first day of the month so reached, and day 00 is
  the day before it.
\<close>

definition reached_day :: "string \<Rightarrow> int" where
  "reached_day s =
     month_first_day (Number (take 4 s) + (Number (take 2 (drop 5 s)) - 1) div 12)
       ((Number (take 2 (drop 5 s)) - 1) mod 12 + 1)
     + (Number (drop 8 s) - 1)"

text \<open>An example host whose general parser accepts nothing.\<close>

definition unparsed :: "string \<Rightarrow> int option" where
  "unparsed s = None"

text \<open>
  Example documents for the theorems below: a new event as a caller submits it, and the
  same event as stored after a save that gave it the slug \<open>s\<close>.
\<close>

definition draft_event :: "string \<Rightarrow> string \<Rightarrow> event" where
  "draft_event i t =
     \<lparr>ident = i, title = t, slug = [], description = ''A day of talks'',
      overview = ''Talks and workshops'', image' = ''/images/event.png'', venue = ''Main hall'',
      location = ''Pune'', date = ''2024-05-20'', time = ''2:30 PM'', mode = ''offline'',
      audience = ''Developers'', agenda = [''Keynote''], organizer = ''Dev Events'',
      tags = [''web''], isNew = True, modified = []\<rparr>"

definition stored_event :: "string \<Rightarrow> string \<Rightarrow> string \<Rightarrow> event" where
  "stored_event i t s = (draft_event i t)\<lparr>slug := s, time := ''14:30'', isNew := False\<rparr>"

text \<open>
  An example environment: the first connection attempt is refused, every later one
  would succeed.
\<close>

definition refused_once :: "string \<Rightarrow> nat \<Rightarrow> error + string" where
  "refused_once uri n = (if n = 0 then Inl (Error ''connect ECONNREFUSED'') else Inr ''connection'')"

definition fresh :: "string runtime" where
  "fresh = \<lparr>cached = \<lparr>conn = None, promise = None\<rparr>, attempts = 0\<rparr>"

chapter \<open>The properties\<close>

section \<open>Slug derivation\<close>

lemma unit_code_less_256: "unit_code c < 256"
  unfolding unit_code_def by (metis of_char_mod_256 mod_less_divisor zero_less_numeral)

lemma lower_unit_not_upper: "\<not> is_upper (lower_unit c)"
  using unit_code_less_256 [of c]
  by (auto simp: lower_unit_def is_upper_def unit_code_def)

lemma set_trim: "set (trim s) \<subseteq> set s"
  unfolding trim_def by (metis set_dropWhileD set_rev subsetI)

lemma spaces_to_hyphen_units:
  "list_all (\<lambda>c. P c \<or> is_space c) s \<Longrightarrow> P (CHR ''-'') \<Longrightarrow> list_all P (spaces_to_hyphen s)"
proof (induction s rule: spaces_to_hyphen.induct)
  case 1
  then show ?case by simp
next
  case (2 c cs)
  have "list_all (\<lambda>c. P c \<or> is_space c) (dropWhile is_space cs)"
    using 2(3) by (auto simp: list_all_iff dest: set_dropWhileD)
  with 2 show ?case by auto
qed

lemma collapse_hyphens_units: "list_all P s \<Longrightarrow> list_all P (collapse_hyphens s)"
proof (induction s rule: collapse_hyphens.induct)
  case 1
  then show ?case by simp
next
  case (2 c cs)
  have "list_all P (dropWhile (\<lambda>d. d = CHR ''-'') cs)"
    using 2(3) by (auto simp: list_all_iff dest: set_dropWhileD)
  with 2 show ?case by auto
qed

lemma collapse_hyphens_hd: "collapse_hyphens s = a # r \<Longrightarrow> s \<noteq> [] \<and> hd s = a"
  by (cases s) (auto split: if_splits)

lemma no_double_hyphen_collapse: "no_double_hyphen (collapse_hyphens s)"
proof (induction s rule: collapse_hyphens.induct)
  case 1
  then show ?case by simp
next
  case (2 c cs)
  show ?case
  proof (cases "c = CHR ''-''")
    case True
    let ?r = "dropWhile (\<lambda>d. d = CHR ''-'') cs"
    have ih: "no_double_hyphen (collapse_hyphens ?r)"
      using 2(1) True by simp
    show ?thesis
    proof (cases "collapse_hyphens ?r")
      case Nil
      then show ?thesis using True by simp
    next
      case (Cons a r)
      then have "?r \<noteq> []" "hd ?r = a"
        using collapse_hyphens_hd by blast+
      then have "a \<noteq> CHR ''-''"
        using hd_dropWhile [of "\<lambda>d. d = CHR ''-''" cs] by auto
      then show ?thesis using True Cons ih by simp
    qed
  next
    case False
    have ih: "no_double_hyphen (collapse_hyphens cs)"
      using 2(2) False by simp
    show ?thesis using False ih by (cases "collapse_hyphens cs") auto
  qed
qed

lemma stripped_units:
  "list_all (\<lambda>c. slug_unit c \<or> is_space c) (strip_special (trim (toLowerCase t)))"
proof -
  have "slug_unit c \<or> is_space c"
    if "c \<in> set (trim (toLowerCase t))" and "is_word c \<or> is_space c \<or> c = CHR ''-''" for c
  proof -
    from that(1) have "c \<in> set (toLowerCase t)"
      using set_trim by blast
    then have "\<not> is_upper c"
      by (auto simp: toLowerCase_def lower_unit_not_upper)
    with that(2) show ?thesis
      by (auto simp: slug_unit_def is_word_def)
  qed
  then show ?thesis
    by (auto simp: strip_special_def list_all_iff)
qed

text \<open>
  C3 (as the code has it). For every title, the slug is made of the units
  \<^verbatim>\<open>a-z\<close>, \<^verbatim>\<open>0-9\<close>, the underscore and the hyphen only (so it has no capital
  letter and no white space), and it never has two hyphens in a row. The underscore
  stays because \<^verbatim>\<open>\w\<close> admits it; nothing removes a hyphen at either end.
\<close>

theorem generateSlug_shape:
  "list_all slug_unit (generateSlug t) \<and> no_double_hyphen (generateSlug t)"
proof
  have "slug_unit (CHR ''-'')"
    by (simp add: slug_unit_def)
  then have "list_all slug_unit (spaces_to_hyphen (strip_special (trim (toLowerCase t))))"
    using spaces_to_hyphen_units [OF stripped_units] by blast
  then show "list_all slug_unit (generateSlug t)"
    unfolding generateSlug_def by (rule collapse_hyphens_units)
  show "no_double_hyphen (generateSlug t)"
    unfolding generateSlug_def by (rule no_double_hyphen_collapse)
qed

theorem generateSlug_shape_witness:
  "list_all slug_unit (generateSlug ''Hello,   World -- 2024'')
   \<and> no_double_hyphen (generateSlug ''Hello,   World -- 2024'')
   \<and> generateSlug ''Hello,   World -- 2024'' = ''hello-world-2024''"
proof -
  have "generateSlug ''Hello,   World -- 2024'' = ''hello-world-2024''"
    by code_simp
  then show ?thesis
    using generateSlug_shape [of "''Hello,   World -- 2024''"] by simp
qed

text \<open>
  C3 (as the specification states it) fails: an underscore of the title reaches the slug,
  a title that starts with a stripped character and a space gets a leading hyphen, and
  one that ends so gets a trailing hyphen.
\<close>

theorem generateSlug_counterexample:
  "generateSlug ''dev_ops day'' = ''dev_ops-day''
   \<and> generateSlug ''@ Scale 2024'' = ''-scale-2024''
   \<and> generateSlug ''Dev Day !'' = ''dev-day-''"
  by code_simp

section \<open>Time normalization\<close>

subsection \<open>The 24-hour branch\<close>

lemma is_digit_not_space: "is_digit c \<Longrightarrow> \<not> is_space c"
  by (auto simp: is_digit_def is_space_def)

lemma upper_unit_digit: "is_digit c \<Longrightarrow> upper_unit c = [c]"
  by (auto simp: is_digit_def upper_unit_def is_lower_def)

lemma upper_unit_colon: "upper_unit (CHR '':'') = '':''"
  by (simp add: upper_unit_def is_lower_def unit_code_def)

lemma colon_not_digit: "\<not> is_digit (CHR '':'')"
  by (simp add: is_digit_def unit_code_def)

lemma dropWhile_unchanged: "s \<noteq> [] \<Longrightarrow> \<not> P (hd s) \<Longrightarrow> dropWhile P s = s"
  by (cases s) auto

lemma trim_unchanged:
  "s \<noteq> [] \<Longrightarrow> \<not> is_space (hd s) \<Longrightarrow> \<not> is_space (last s) \<Longrightarrow> trim s = s"
  by (simp add: trim_def dropWhile_unchanged hd_rev)

lemma digit_unit_0: "digit_unit 0 = CHR ''0''"
  by code_simp

lemma padStart_toString: "n < 100 \<Longrightarrow> padStart 2 (CHR ''0'') (toString n) = two_digits n"
proof (cases "n < 10")
  case True
  then show ?thesis
    by (simp add: padStart_def toString.simps [of n] two_digits_def digit_unit_0)
next
  case False
  assume "n < 100"
  with False have "n div 10 < 10" by simp
  with False show ?thesis
    by (simp add: padStart_def toString.simps [of n] toString.simps [of "n div 10"] two_digits_def)
qed

lemma time24_trimmed:
  assumes "list_all is_digit hs" and "length hs = 1 \<or> length hs = 2"
    and "is_digit m1" and "is_digit m2"
  shows "toUpperCase (trim (hs @ [CHR '':'', m1, m2])) = hs @ [CHR '':'', m1, m2]"
    and "time24Match (hs @ [CHR '':'', m1, m2]) = Some (hs, [m1, m2])"
proof -
  let ?s = "hs @ [CHR '':'', m1, m2]"
  from assms(2) consider a where "hs = [a]" | a b where "hs = [a, b]"
    by (metis One_nat_def Suc_1 length_0_conv length_Suc_conv)
  then have "toUpperCase (trim ?s) = ?s \<and> time24Match ?s = Some (hs, [m1, m2])"
  proof cases
    case 1
    with assms have d: "is_digit a" by simp
    have t: "trim ?s = ?s"
      using 1 d assms(4) by (intro trim_unchanged) (simp_all add: is_digit_not_space)
    have u: "toUpperCase ?s = ?s"
      using 1 d assms by (simp add: toUpperCase_def upper_unit_digit upper_unit_colon)
    have m: "time24Match ?s = Some (hs, [m1, m2])"
      using 1 d assms by (simp add: time24Match_def colon_not_digit)
    show ?thesis
      by (simp only: t u m)
  next
    case 2
    with assms have d: "is_digit a" "is_digit b" by simp_all
    have t: "trim ?s = ?s"
      using 2 d assms(4) by (intro trim_unchanged) (simp_all add: is_digit_not_space)
    have u: "toUpperCase ?s = ?s"
      using 2 d assms by (simp add: toUpperCase_def upper_unit_digit upper_unit_colon)
    have m: "time24Match ?s = Some (hs, [m1, m2])"
      using 2 d assms by (simp add: time24Match_def colon_not_digit)
    show ?thesis
      by (simp only: t u m)
  qed
  then show "toUpperCase (trim ?s) = ?s" and "time24Match ?s = Some (hs, [m1, m2])"
    by simp_all
qed

text \<open>
  C9. The minutes are never checked: an hour of one or two digits with value 0 to 23,
  a colon and any two digits (\<^verbatim>\<open>00\<close> to \<^verbatim>\<open>99\<close>) is accepted, and the answer
  is the hour on two digits followed by the same minutes.
\<close>

theorem normalizeTime_minutes_unchecked:
  assumes "list_all is_digit hs" and "length hs = 1 \<or> length hs = 2"
    and "parseInt10 hs \<le> 23" and "is_digit m1" and "is_digit m2"
  shows "normalizeTime (hs @ [CHR '':'', m1, m2])
         = Inr (two_digits (parseInt10 hs) @ [CHR '':'', m1, m2])"
proof -
  note m = time24_trimmed [OF assms(1,2,4,5)]
  have "parseInt10 hs < 100"
    using assms(3) by simp
  then have "hhmm (parseInt10 hs) [m1, m2] = two_digits (parseInt10 hs) @ [CHR '':'', m1, m2]"
    by (simp add: hhmm_def padStart_toString)
  then show ?thesis
    unfolding normalizeTime_def m using assms(3) by (simp add: m)
qed

theorem normalizeTime_minutes_unchecked_witness:
  "normalizeTime ''14:75'' = Inr ''14:75''"
proof -
  have h: "list_all is_digit ''14''" "length ''14'' = 1 \<or> length ''14'' = 2"
    "parseInt10 ''14'' \<le> 23" "is_digit (CHR ''7'')" "is_digit (CHR ''5'')"
    by code_simp+
  have "two_digits (parseInt10 ''14'') = ''14''"
    by code_simp
  then show ?thesis
    using normalizeTime_minutes_unchecked [OF h] by simp
qed

text \<open>A time already in the form \<^verbatim>\<open>HH:MM\<close> with an hour up to 23 is left as it is.\<close>

lemma is_digit_unit: "d < 10 \<Longrightarrow> is_digit (digit_unit d)"
  by (simp add: is_digit_def digit_unit_def unit_code_def)

lemma parseInt10_two_digits: "h < 100 \<Longrightarrow> parseInt10 (two_digits h) = h"
  by (simp add: two_digits_def parseInt10_def digit_value_unit)

theorem normalizeTime_canonical_fixed:
  assumes "h \<le> 23" and "is_digit m1" and "is_digit m2"
  shows "normalizeTime (two_digits h @ [CHR '':'', m1, m2]) = Inr (two_digits h @ [CHR '':'', m1, m2])"
proof -
  have "list_all is_digit (two_digits h)" "length (two_digits h) = 1 \<or> length (two_digits h) = 2"
    using assms(1) by (simp_all add: two_digits_def is_digit_unit)
  moreover have "parseInt10 (two_digits h) = h"
    using assms(1) by (simp add: parseInt10_two_digits)
  ultimately have m: "toUpperCase (trim (two_digits h @ [CHR '':'', m1, m2]))
        = two_digits h @ [CHR '':'', m1, m2]"
      "time24Match (two_digits h @ [CHR '':'', m1, m2]) = Some (two_digits h, [m1, m2])"
      "parseInt10 (two_digits h) = h"
    using time24_trimmed [of "two_digits h" m1 m2] assms(2,3) by simp_all
  show ?thesis
    unfolding normalizeTime_def m(1) using assms(1)
    by (simp add: m hhmm_def padStart_toString)
qed

theorem normalizeTime_canonical_fixed_witness:
  "normalizeTime ''09:05'' = Inr ''09:05''"
proof -
  have "two_digits 9 = ''09''" "(9::nat) \<le> 23" "is_digit (CHR ''0'')" "is_digit (CHR ''5'')"
    by code_simp+
  then show ?thesis
    using normalizeTime_canonical_fixed [of 9 "CHR ''0''" "CHR ''5''"] by simp
qed

subsection \<open>The 12-hour branch\<close>

text \<open>
  C4. The 12-hour branch, unlike the 24-hour branch, checks no range of the hour:
  \<^verbatim>\<open>13:30 PM\<close> is neither refused nor turned into a time of day, and
  \<^verbatim>\<open>99:30 PM\<close> gives an hour of three digits. (The five inputs that the
  specification lists do normalize as it says, and so does every 12-hour input whose hour
  is 1 to 12: see below.)
\<close>

theorem normalizeTime_12h_hour_unchecked:
  "normalizeTime ''13:30 PM'' = Inr ''25:30'' \<and> normalizeTime ''99:30 PM'' = Inr ''111:30''"
  by code_simp

text \<open>The five inputs that the specification lists normalize as it says.\<close>

theorem normalizeTime_examples:
  "normalizeTime ''2:30 PM'' = Inr ''14:30'' \<and> normalizeTime ''2:30pm'' = Inr ''14:30''
   \<and> normalizeTime ''14:30'' = Inr ''14:30'' \<and> normalizeTime ''12:00 AM'' = Inr ''00:00''
   \<and> normalizeTime ''12:00 PM'' = Inr ''12:00''"
  by code_simp

text \<open>
  The 12-hour branch on an hour from 1 to 12: the hour, a colon, two digits, any white
  space and the marker in either case give the hour of the day on two digits, 12 AM
  being 00 and 12 PM staying 12.
\<close>

lemma toUpperCase_append: "toUpperCase (a @ b) = toUpperCase a @ toUpperCase b"
  by (simp add: toUpperCase_def)

lemma upper_unit_space: "is_space c \<Longrightarrow> upper_unit c = [c]"
  by (auto simp: is_space_def upper_unit_def is_lower_def)

lemma toUpperCase_spaces: "list_all is_space ws \<Longrightarrow> toUpperCase ws = ws"
  by (induction ws) (simp_all add: toUpperCase_def upper_unit_space)

lemma toUpperCase_digits: "list_all is_digit ds \<Longrightarrow> toUpperCase ds = ds"
  by (induction ds) (simp_all add: toUpperCase_def upper_unit_digit)

lemma marker_facts:
  assumes "p \<in> set meridiem_markers"
  shows "toUpperCase p = ''AM'' \<or> toUpperCase p = ''PM''" and "p \<noteq> []" and "\<not> is_space (last p)"
proof -
  have "list_all (\<lambda>p. (toUpperCase p = ''AM'' \<or> toUpperCase p = ''PM'') \<and> p \<noteq> [] \<and> \<not> is_space (last p))
          meridiem_markers"
    by code_simp
  with assms show "toUpperCase p = ''AM'' \<or> toUpperCase p = ''PM''" "p \<noteq> []" "\<not> is_space (last p)"
    by (simp_all add: list_all_iff)
qed

lemma dropWhile_spaces_then:
  "list_all is_space ws \<Longrightarrow> r \<noteq> [] \<Longrightarrow> \<not> is_space (hd r) \<Longrightarrow> dropWhile is_space (ws @ r) = r"
  by (induction ws) (simp_all add: dropWhile_unchanged)

lemma time12_accepted:
  assumes hs: "list_all is_digit hs" "length hs = 1 \<or> length hs = 2"
    and m: "is_digit m1" "is_digit m2" and ws: "list_all is_space ws"
    and p: "p \<in> set meridiem_markers"
  shows "normalizeTime (hs @ [CHR '':'', m1, m2] @ ws @ p) =
     Inr (hhmm (if toUpperCase p = ''PM'' \<and> parseInt10 hs \<noteq> 12 then parseInt10 hs + 12
                else if toUpperCase p = ''AM'' \<and> parseInt10 hs = 12 then 0
                else parseInt10 hs) [m1, m2])"
proof -
  let ?s = "hs @ [CHR '':'', m1, m2] @ ws @ p"
  let ?P = "toUpperCase p"
  note pf = marker_facts [OF p]
  have P: "?P \<noteq> []" "\<not> is_space (hd ?P)"
    using pf(1) by (auto simp: is_space_def unit_code_def)
  have hs_ne: "hs \<noteq> []" using hs(2) by auto
  have "\<not> is_space (hd ?s)"
    using hs hs_ne by (cases hs) (simp_all add: is_digit_not_space)
  moreover have "last ?s = last p" using pf(2) by simp
  ultimately have t: "trim ?s = ?s"
    using pf(3) hs_ne by (intro trim_unchanged) simp_all
  have "toUpperCase [CHR '':'', m1, m2] = [CHR '':'', m1, m2]"
    using m by (simp add: toUpperCase_def upper_unit_digit upper_unit_colon)
  then have u: "toUpperCase ?s = hs @ [CHR '':'', m1, m2] @ ws @ ?P"
    using hs(1) ws
    by (simp only: toUpperCase_append toUpperCase_digits toUpperCase_spaces)
  have dw: "dropWhile is_space (ws @ ?P) = ?P"
    using ws P by (rule dropWhile_spaces_then)
  have ne: "ws @ ?P \<noteq> []" using P by simp
  from hs(2) consider a where "hs = [a]" | a b where "hs = [a, b]"
    by (metis One_nat_def Suc_1 length_0_conv length_Suc_conv)
  then have mt: "time24Match (hs @ [CHR '':'', m1, m2] @ ws @ ?P) = None
      \<and> time12Match (hs @ [CHR '':'', m1, m2] @ ws @ ?P) = Some (hs, [m1, m2], ?P)"
  proof cases
    case 1
    with hs m ne dw pf(1) show ?thesis
      by (auto simp: time24Match_def time12Match_def colon_not_digit Let_def)
  next
    case 2
    with hs m ne dw pf(1) show ?thesis
      by (auto simp: time24Match_def time12Match_def colon_not_digit Let_def)
  qed
  show ?thesis
    unfolding normalizeTime_def t u using pf(1) mt by (auto simp: Let_def)
qed

theorem normalizeTime_12_hour:
  assumes "list_all is_digit hs" and "length hs = 1 \<or> length hs = 2"
    and "1 \<le> parseInt10 hs" and "parseInt10 hs \<le> 12"
    and "is_digit m1" and "is_digit m2" and "list_all is_space ws"
    and "p \<in> set meridiem_markers"
  shows "normalizeTime (hs @ [CHR '':'', m1, m2] @ ws @ p) =
     Inr (two_digits (parseInt10 hs mod 12 + (if toUpperCase p = ''PM'' then 12 else 0))
          @ [CHR '':'', m1, m2])"
proof -
  have "toUpperCase p = ''AM'' \<or> toUpperCase p = ''PM''"
    using assms(8) by (rule marker_facts)
  then show ?thesis
    using assms(3,4) time12_accepted [OF assms(1,2,5,6,7,8)]
    by (auto simp: hhmm_def padStart_toString)
qed

theorem normalizeTime_12_hour_witness:
  "normalizeTime ''12:05 am'' = Inr ''00:05'' \<and> normalizeTime ''9:40PM'' = Inr ''21:40''"
proof -
  have a: "list_all is_digit ''12''" "length ''12'' = 1 \<or> length ''12'' = 2"
    "1 \<le> parseInt10 ''12''" "parseInt10 ''12'' \<le> 12" "is_digit (CHR ''0'')" "is_digit (CHR ''5'')"
    "list_all is_space '' ''" "''am'' \<in> set meridiem_markers"
    by code_simp+
  have b: "list_all is_digit ''9''" "length ''9'' = 1 \<or> length ''9'' = 2"
    "1 \<le> parseInt10 ''9''" "parseInt10 ''9'' \<le> 12" "is_digit (CHR ''4'')" "is_digit (CHR ''0'')"
    "list_all is_space []" "''PM'' \<in> set meridiem_markers"
    by code_simp+
  have "two_digits (parseInt10 ''12'' mod 12 + (if toUpperCase ''am'' = ''PM'' then 12 else 0)) = ''00''"
    "two_digits (parseInt10 ''9'' mod 12 + (if toUpperCase ''PM'' = ''PM'' then 12 else 0)) = ''21''"
    by code_simp+
  then show ?thesis
    using normalizeTime_12_hour [OF a] normalizeTime_12_hour [OF b] by simp
qed

subsection \<open>The error\<close>

text \<open>
  The only error of \<^verbatim>\<open>normalizeTime\<close> quotes the input as given; it is raised
  exactly when the 12-hour pattern does not match and the 24-hour pattern does not match
  with an hour up to 23.
\<close>

theorem normalizeTime_only_error:
  assumes "normalizeTime timeStr = Inl e"
  shows "e = Error (''Invalid time format: '' @ timeStr)
       \<and> time12Match (toUpperCase (trim timeStr)) = None
       \<and> (case time24Match (toUpperCase (trim timeStr)) of
             None \<Rightarrow> True | Some (h, m) \<Rightarrow> 23 < parseInt10 h)"
  using assms
  by (auto simp: normalizeTime_def Let_def split: option.splits prod.splits if_splits)

theorem normalizeTime_only_error_witness:
  "normalizeTime ''24:00'' = Inl (Error ''Invalid time format: 24:00'')
   \<and> time12Match (toUpperCase (trim ''24:00'')) = None
   \<and> time24Match (toUpperCase (trim ''24:00'')) = Some (''24'', ''00'')"
proof -
  have h: "normalizeTime ''24:00'' = Inl (Error ''Invalid time format: 24:00'')"
    by code_simp
  have "time24Match (toUpperCase (trim ''24:00'')) = Some (''24'', ''00'')"
    by code_simp
  then show ?thesis
    using normalizeTime_only_error [OF h] h by simp
qed

section \<open>Date normalization\<close>

subsection \<open>Strict literals\<close>

lemma DayFromYear_mono: "y \<le> z \<Longrightarrow> DayFromYear y \<le> DayFromYear z"
proof (induction "nat (z - y)" arbitrary: z)
  case 0
  then show ?case by simp
next
  case (Suc n)
  then have "n = nat (z - 1 - y)" "y \<le> z - 1" by linarith+
  then have "DayFromYear y \<le> DayFromYear (z - 1)" using Suc(1) by blast
  also have "\<dots> \<le> DayFromYear z" using DayFromYear_next [of "z - 1"] by (simp split: if_splits)
  finally show ?case .
qed

lemma DayFromYear_strict: "y < z \<Longrightarrow> DayFromYear y < DayFromYear z"
  using DayFromYear_mono [of "y + 1" z] DayFromYear_next [of y] by (simp split: if_splits)

lemma hyphen_not_digit: "is_digit c \<Longrightarrow> c \<noteq> CHR ''-''"
  by (auto simp: is_digit_def unit_code_def)

lemma strict_date_shape:
  assumes "strict_date s"
  obtains y1 y2 y3 y4 m1 m2 d1 d2 where
    "s = [y1, y2, y3, y4, CHR ''-'', m1, m2, CHR ''-'', d1, d2]"
    "is_digit y1" "is_digit y2" "is_digit y3" "is_digit y4"
    "is_digit m1" "is_digit m2" "is_digit d1" "is_digit d2"
proof -
  from assms have "length s = 10" by (simp add: strict_date_def)
  then obtain a b c d e f g h i j where s: "s = [a, b, c, d, e, f, g, h, i, j]"
    by (auto simp: numeral_eq_Suc length_Suc_conv)
  with assms that show thesis
    by (auto simp: strict_date_def)
qed

lemma digit_value_le: "is_digit c \<Longrightarrow> digit_value c \<le> 9"
  by (auto simp: is_digit_def digit_value_def)

lemma Number_4: "Number [a, b, c, d] = int (1000 * digit_value a + 100 * digit_value b + 10 * digit_value c + digit_value d)"
  by (simp add: Number_def parseInt10_def)

lemma Number_2: "Number [a, b] = int (10 * digit_value a + digit_value b)"
  by (simp add: Number_def parseInt10_def)

lemma DayFromYear_99: "DayFromYear 99 = -683368"
  by (simp add: DayFromYear_def)

lemma DayFromYear_10008: "DayFromYear 10008 = 2935819"
  by (simp add: DayFromYear_def)

lemma month_start_bounds: "0 \<le> month_start leap m \<and> month_start leap m \<le> 366"
  by (simp add: month_start_def)

lemma MakeDay_bounds:
  assumes "100 \<le> yr" "yr \<le> 9999" "-1 \<le> m" "m \<le> 98" "0 \<le> d" "d \<le> 99"
  shows "-683369 \<le> MakeDay yr m d \<and> MakeDay yr m d \<le> 2936284"
proof -
  let ?ym = "yr + m div 12"
  have "-1 \<le> m div 12" "m div 12 \<le> 8"
    using assms(3,4) by (simp_all add: pos_imp_zdiv_neg_iff div_le_dividend zdiv_mono1 [of m 98 12, simplified]  zdiv_mono1 [of "-1" m 12, simplified])
  then have "99 \<le> ?ym" "?ym \<le> 10008" using assms(1,2) by linarith+
  then have "DayFromYear 99 \<le> DayFromYear ?ym" "DayFromYear ?ym \<le> DayFromYear 10008"
    by (simp_all add: DayFromYear_mono)
  then show ?thesis
    using month_start_bounds [of "InLeapYear ?ym" "m mod 12"] assms(5,6)
    by (simp add: MakeDay_def Let_def DayFromYear_99 DayFromYear_10008)
qed

lemma strict_literal_parsed:
  assumes "strict_date s"
  shows "(case map Number (split_on (CHR ''-'') s) of
            [year, month, day] \<Rightarrow> Date_UTC year (month - 1) day
          | _ \<Rightarrow> None)
       = Some (MakeDay (MakeFullYear (Number (take 4 s)))
           (Number (take 2 (drop 5 s)) - 1) (Number (drop 8 s)) * msPerDay)"
  using assms
proof (rule strict_date_shape)
  fix y1 y2 y3 y4 m1 m2 d1 d2
  assume s: "s = [y1, y2, y3, y4, CHR ''-'', m1, m2, CHR ''-'', d1, d2]"
    and dg: "is_digit y1" "is_digit y2" "is_digit y3" "is_digit y4"
      "is_digit m1" "is_digit m2" "is_digit d1" "is_digit d2"
  let ?y = "Number [y1, y2, y3, y4]" and ?m = "Number [m1, m2]" and ?d = "Number [d1, d2]"
  have sp: "split_on (CHR ''-'') s = [[y1, y2, y3, y4], [m1, m2], [d1, d2]]"
    using dg by (simp add: s hyphen_not_digit)
  have y: "0 \<le> ?y" "?y \<le> 9999"
    using dg(1-4) [THEN digit_value_le] by (simp_all add: Number_4)
  have m: "0 \<le> ?m" "?m \<le> 99"
    using dg(5,6) [THEN digit_value_le] by (simp_all add: Number_2)
  have d: "0 \<le> ?d" "?d \<le> 99"
    using dg(7,8) [THEN digit_value_le] by (simp_all add: Number_2)
  have fy: "100 \<le> MakeFullYear ?y" "MakeFullYear ?y \<le> 9999"
    using y by (simp_all add: MakeFullYear_def)
  have "-683369 \<le> MakeDay (MakeFullYear ?y) (?m - 1) ?d
        \<and> MakeDay (MakeFullYear ?y) (?m - 1) ?d \<le> 2936284"
    using fy m d by (intro MakeDay_bounds) simp_all
  then have tc: "Date_UTC ?y (?m - 1) ?d = Some (MakeDay (MakeFullYear ?y) (?m - 1) ?d * msPerDay)"
    by (simp add: Date_UTC_def TimeClip_def msPerDay_def abs_if)
  have tk: "take 4 s = [y1, y2, y3, y4]" "take 2 (drop 5 s) = [m1, m2]" "drop 8 s = [d1, d2]"
    by (simp_all add: s)
  show ?thesis
    unfolding tk sp by (simp add: tc)
qed

text \<open>
  A strict literal never raises, whatever its month and day: the answer is the date
  part of \<^verbatim>\<open>toISOString\<close> for the day number that \<^verbatim>\<open>MakeDay\<close> computes from
  the three fields. Which date that is, is the subject of the last subsection on strict
  literals below.
\<close>

theorem normalizeDateToISO_strict_rolls_over:
  assumes "strict_date s"
  shows "normalizeDateToISO dateParse s =
    Inr (iso_date_part (MakeDay (MakeFullYear (Number (take 4 s)))
           (Number (take 2 (drop 5 s)) - 1) (Number (drop 8 s)) * msPerDay))"
proof -
  have "normalizeDateToISO dateParse s =
      (case (case map Number (split_on (CHR ''-'') s) of
               [year, month, day] \<Rightarrow> Date_UTC year (month - 1) day
             | _ \<Rightarrow> None) of
         None \<Rightarrow> Inl (Error (''Invalid date format: '' @ s))
       | Some t \<Rightarrow> Inr (iso_date_part t))"
    using assms by (simp add: normalizeDateToISO_def)
  then show ?thesis
    by (simp only: strict_literal_parsed [OF assms] option.case)
qed

theorem normalizeDateToISO_strict_rolls_over_witness:
  "\<forall>dateParse.
     normalizeDateToISO dateParse ''2024-02-30'' = Inr ''2024-03-01''
     \<and> normalizeDateToISO dateParse ''2024-13-01'' = Inr ''2025-01-01''
     \<and> normalizeDateToISO dateParse ''2024-00-10'' = Inr ''2023-12-10''"
proof
  fix dateParse
  have h: "strict_date ''2024-02-30''" "strict_date ''2024-13-01''" "strict_date ''2024-00-10''"
    by code_simp+
  have "iso_date_part (MakeDay (MakeFullYear (Number (take 4 ''2024-02-30'')))
           (Number (take 2 (drop 5 ''2024-02-30'')) - 1) (Number (drop 8 ''2024-02-30'')) * msPerDay)
        = ''2024-03-01''"
    and "iso_date_part (MakeDay (MakeFullYear (Number (take 4 ''2024-13-01'')))
           (Number (take 2 (drop 5 ''2024-13-01'')) - 1) (Number (drop 8 ''2024-13-01'')) * msPerDay)
        = ''2025-01-01''"
    and "iso_date_part (MakeDay (MakeFullYear (Number (take 4 ''2024-00-10'')))
           (Number (take 2 (drop 5 ''2024-00-10'')) - 1) (Number (drop 8 ''2024-00-10'')) * msPerDay)
        = ''2023-12-10''"
    by code_simp+
  then show "normalizeDateToISO dateParse ''2024-02-30'' = Inr ''2024-03-01''
     \<and> normalizeDateToISO dateParse ''2024-13-01'' = Inr ''2025-01-01''
     \<and> normalizeDateToISO dateParse ''2024-00-10'' = Inr ''2023-12-10''"
    using normalizeDateToISO_strict_rolls_over [OF h(1), of dateParse]
      normalizeDateToISO_strict_rolls_over [OF h(2), of dateParse]
      normalizeDateToISO_strict_rolls_over [OF h(3), of dateParse]
    by simp
qed

text \<open>
  C5. A strict literal whose year is 0000 to 0099 does not come back unchanged:
  \<^verbatim>\<open>Date.UTC\<close> reads its year as 1900 plus the two digits. The literal
  \<^verbatim>\<open>0050-01-01\<close> is a date of the calendar and normalizes to
  \<^verbatim>\<open>1950-01-01\<close>.
\<close>

theorem normalizeDateToISO_two_digit_year:
  "normalizeDateToISO dateParse ''0050-01-01'' = Inr ''1950-01-01''"
proof -
  have "strict_date ''0050-01-01''"
    by code_simp
  moreover have "(case map Number (split_on (CHR ''-'') ''0050-01-01'') of
      [year, month, day] \<Rightarrow> Date_UTC year (month - 1) day | _ \<Rightarrow> None) = Some (- 631152000000)"
    by code_simp
  moreover have "iso_date_part (- 631152000000) = ''1950-01-01''"
    by code_simp
  ultimately show ?thesis
    by (simp add: normalizeDateToISO_def)
qed

subsection \<open>Dates of the calendar\<close>

lemma DayFromYear_1970: "DayFromYear 1970 = 0"
  by (simp add: DayFromYear_def)

lemma DayFromYear_after_1970: "1970 \<le> y \<Longrightarrow> DayFromYear y \<le> 366 * (y - 1970)"
proof (induction "nat (y - 1970)" arbitrary: y)
  case 0
  then have "y = 1970" by simp
  then show ?case by (simp add: DayFromYear_1970)
next
  case (Suc n)
  then have "n = nat (y - 1 - 1970)" "1970 \<le> y - 1" by linarith+
  then have "DayFromYear (y - 1) \<le> 366 * (y - 1 - 1970)" using Suc(1) by blast
  then show ?case using DayFromYear_next [of "y - 1"] by (simp split: if_splits)
qed

lemma DayFromYear_before_1970: "y \<le> 1970 \<Longrightarrow> DayFromYear y \<le> 365 * (y - 1970)"
proof (induction "nat (1970 - y)" arbitrary: y)
  case 0
  then have "y = 1970" by simp
  then show ?case by (simp add: DayFromYear_1970)
next
  case (Suc n)
  then have "n = nat (1970 - (y + 1))" "y + 1 \<le> 1970" by linarith+
  then have "DayFromYear (y + 1) \<le> 365 * (y + 1 - 1970)" using Suc(1) by blast
  then show ?case using DayFromYear_next [of y] by (simp split: if_splits)
qed

lemma year_guess_not_after:
  "DayFromYear (1970 + (if 0 \<le> d then d div 366 else d div 365)) \<le> d"
proof (cases "0 \<le> d")
  case True
  then have "0 \<le> d div 366" by (simp add: pos_imp_zdiv_nonneg_iff)
  then have "DayFromYear (1970 + d div 366) \<le> 366 * (d div 366)"
    using DayFromYear_after_1970 [of "1970 + d div 366"] by simp
  also have "\<dots> \<le> d"
    using div_mult_mod_eq [of d 366] pos_mod_sign [of 366 d] by linarith
  finally show ?thesis using True by simp
next
  case False
  then have "d div 365 \<le> 0" by (simp add: div_nonpos_pos_le0)
  then have "DayFromYear (1970 + d div 365) \<le> 365 * (d div 365)"
    using DayFromYear_before_1970 [of "1970 + d div 365"] by simp
  also have "\<dots> \<le> d"
    using div_mult_mod_eq [of d 365] pos_mod_sign [of 365 d] by linarith
  finally show ?thesis using False by simp
qed

lemma year_up_spec:
  "DayFromYear y \<le> d \<Longrightarrow>
     DayFromYear (year_up d y) \<le> d \<and> d < DayFromYear (year_up d y + 1)"
proof (induction d y rule: year_up.induct)
  case (1 d y)
  show ?case
  proof (cases "DayFromYear (y + 1) \<le> d")
    case True
    then show ?thesis using 1(1) [OF True True] by (simp add: year_up.simps [of d y])
  next
    case False
    then show ?thesis using 1(2) by (simp add: year_up.simps [of d y])
  qed
qed

lemma YearFromTime_spec:
  "DayFromYear (YearFromTime t) \<le> Day t \<and> Day t < DayFromYear (YearFromTime t + 1)"
  unfolding YearFromTime_def Let_def by (rule year_up_spec) (rule year_guess_not_after)

lemma YearFromTime_unique:
  assumes "DayFromYear y \<le> Day t" and "Day t < DayFromYear (y + 1)"
  shows "YearFromTime t = y"
proof (rule ccontr)
  assume "YearFromTime t \<noteq> y"
  then consider "YearFromTime t < y" | "y < YearFromTime t" by linarith
  then show False
  proof cases
    case 1
    then have "DayFromYear (YearFromTime t + 1) \<le> DayFromYear y"
      by (intro DayFromYear_mono) simp
    then show False using YearFromTime_spec [of t] assms(1) by linarith
  next
    case 2
    then have "DayFromYear (y + 1) \<le> DayFromYear (YearFromTime t)"
      by (intro DayFromYear_mono) simp
    then show False using YearFromTime_spec [of t] assms(2) by linarith
  qed
qed

lemma Day_midnight: "Day (D * msPerDay) = D" "(D * msPerDay) mod msPerDay = 0"
  by (simp_all add: Day_def msPerDay_def)

lemma month_cases:
  fixes m :: int
  assumes "1 \<le> m" "m \<le> 12"
  obtains "m = 1" | "m = 2" | "m = 3" | "m = 4" | "m = 5" | "m = 6"
    | "m = 7" | "m = 8" | "m = 9" | "m = 10" | "m = 11" | "m = 12"
proof -
  from assms have "m = 1 \<or> m = 2 \<or> m = 3 \<or> m = 4 \<or> m = 5 \<or> m = 6
      \<or> m = 7 \<or> m = 8 \<or> m = 9 \<or> m = 10 \<or> m = 11 \<or> m = 12"
    by arith
  with that show thesis
    by blast
qed

lemma calendar_fields:
  assumes m: "1 \<le> m" "m \<le> 12" and d: "1 \<le> d" "d \<le> days_in_month (InLeapYear y) m"
  defines "t \<equiv> (DayFromYear y + month_start (InLeapYear y) (m - 1) + d - 1) * msPerDay"
  shows "YearFromTime t = y" and "MonthFromTime t = m - 1" and "DateFromTime t = d"
proof -
  let ?leap = "InLeapYear y"
  let ?w = "month_start ?leap (m - 1) + d - 1"
  have day: "Day t = DayFromYear y + ?w"
    unfolding t_def Day_midnight by simp
  have w: "0 \<le> ?w \<and> ?w < (if ?leap then 366 else 365)"
    using m
  proof (cases rule: month_cases)
  qed (use d in \<open>auto simp: month_start_def days_in_month_def\<close>)
  show y: "YearFromTime t = y"
    using w day DayFromYear_next [of y] by (intro YearFromTime_unique) (auto split: if_splits)
  have wy: "DayWithinYear t = ?w"
    by (simp add: DayWithinYear_def y day)
  show mo: "MonthFromTime t = m - 1"
    using m
  proof (cases rule: month_cases)
  qed (use d in \<open>auto simp: MonthFromTime_def y wy month_start_def days_in_month_def Let_def\<close>)
  show "DateFromTime t = d"
    by (simp add: DateFromTime_def y wy mo)
qed

lemma digit_unit_value: "is_digit c \<Longrightarrow> digit_unit (digit_value c) = c"
  by (simp add: is_digit_def digit_unit_def digit_value_def unit_code_def)

lemma digit_value_less: "is_digit c \<Longrightarrow> digit_value c < 10"
  by (auto simp: is_digit_def digit_value_def)

lemma toString_0: "toString 0 = ''0''"
  by code_simp

lemma toString_strips_zeros:
  assumes "ds \<noteq> []" and "list_all is_digit ds"
  shows "\<exists>z. ds = replicate z (CHR ''0'') @ toString (parseInt10 ds)"
  using assms
proof (induction ds rule: rev_nonempty_induct)
  case (single c)
  then have "toString (parseInt10 [c]) = [c]"
    by (simp add: parseInt10_def toString.simps [of "digit_value c"] digit_value_less digit_unit_value)
  then show ?case
    by (intro exI [of _ 0]) simp
next
  case (snoc c ds)
  then obtain z where z: "ds = replicate z (CHR ''0'') @ toString (parseInt10 ds)"
    by auto
  from snoc have c: "is_digit c" by simp
  let ?v = "10 * parseInt10 ds + digit_value c"
  show ?case
  proof (cases "parseInt10 ds = 0")
    case True
    then have "toString ?v = [c]"
      using c by (simp add: toString.simps [of "digit_value c"] digit_value_less digit_unit_value)
    moreover have "ds = replicate (Suc z) (CHR ''0'')"
      using z True by (simp add: toString_0 replicate_append_same)
    ultimately show ?thesis
      unfolding parseInt10_snoc by (intro exI [of _ "Suc z"]) (metis append_Nil2 replicate_app_Cons_same append.assoc append_Cons append_Nil replicate_Suc replicate_append_same)
  next
    case False
    then have "\<not> ?v < 10" by simp
    moreover have "?v div 10 = parseInt10 ds" "?v mod 10 = digit_value c"
      using digit_value_less [OF c] by simp_all
    ultimately have "toString ?v = toString (parseInt10 ds) @ [c]"
      using c by (simp add: toString.simps [of ?v] digit_unit_value)
    then show ?thesis
      unfolding parseInt10_snoc using z by (intro exI [of _ z]) simp
  qed
qed

lemma pad_number_digits:
  assumes "ds \<noteq> []" and "list_all is_digit ds"
  shows "pad_number (length ds) (Number ds) = ds"
proof -
  from toString_strips_zeros [OF assms] obtain z
    where z: "ds = replicate z (CHR ''0'') @ toString (parseInt10 ds)" by blast
  then have "length ds = z + length (toString (parseInt10 ds))"
    by (metis length_append length_replicate)
  then have "padStart (length ds) (CHR ''0'') (toString (parseInt10 ds)) = ds"
    using z by (simp add: padStart_def)
  then show ?thesis
    by (simp add: pad_number_def Number_def)
qed

lemma split_on_first:
  "sep \<notin> set xs \<Longrightarrow> split_on sep (xs @ sep # ys) = xs # split_on sep ys"
  by (induction xs) auto

lemma T_not_digit: "is_digit c \<Longrightarrow> c \<noteq> CHR ''T''"
  by (auto simp: is_digit_def unit_code_def)

lemma MakeDay_in_year:
  "0 \<le> m \<Longrightarrow> m < 12 \<Longrightarrow>
     MakeDay y m d = DayFromYear y + month_start (InLeapYear y) m + d - 1"
  by (simp add: MakeDay_def)

lemma iso_date_part_fields:
  assumes "YearFromTime t = y" "MonthFromTime t = m - 1" "DateFromTime t = d"
    and "0 \<le> y" "y \<le> 9999"
    and "CHR ''T'' \<notin> set (pad_number 4 y @ ''-'' @ pad_number 2 m @ ''-'' @ pad_number 2 d)"
  shows "iso_date_part t = pad_number 4 y @ ''-'' @ pad_number 2 m @ ''-'' @ pad_number 2 d"
proof -
  let ?date = "pad_number 4 y @ ''-'' @ pad_number 2 m @ ''-'' @ pad_number 2 d"
  obtain rest where "toISOString t = ?date @ CHR ''T'' # rest"
    using assms(1-5) by (simp add: toISOString_def iso_year_def Let_def)
  then show ?thesis
    using split_on_first [OF assms(6)] by (simp add: iso_date_part_def)
qed

text \<open>
  A strict literal whose year is 0100 to 9999 and whose month and day are a date of
  the calendar comes back unchanged, whatever the host's parser and time zone: the
  literal never reaches them.
\<close>

theorem normalizeDateToISO_calendar_date:
  assumes "strict_date s"
    and "100 \<le> Number (take 4 s)"
    and "1 \<le> Number (take 2 (drop 5 s))" and "Number (take 2 (drop 5 s)) \<le> 12"
    and "1 \<le> Number (drop 8 s)"
    and "Number (drop 8 s)
           \<le> days_in_month (InLeapYear (Number (take 4 s))) (Number (take 2 (drop 5 s)))"
  shows "normalizeDateToISO dateParse s = Inr s"
  using assms(1)
proof (rule strict_date_shape)
  fix y1 y2 y3 y4 m1 m2 d1 d2
  assume s: "s = [y1, y2, y3, y4, CHR ''-'', m1, m2, CHR ''-'', d1, d2]"
    and dg: "is_digit y1" "is_digit y2" "is_digit y3" "is_digit y4"
      "is_digit m1" "is_digit m2" "is_digit d1" "is_digit d2"
  let ?ys = "[y1, y2, y3, y4]" and ?ms = "[m1, m2]" and ?ds = "[d1, d2]"
  let ?y = "Number ?ys" and ?m = "Number ?ms" and ?d = "Number ?ds"
  have tk: "take 4 s = ?ys" "take 2 (drop 5 s) = ?ms" "drop 8 s = ?ds"
    by (simp_all add: s)
  note h = assms(2-6) [unfolded tk]
  have y: "?y \<le> 9999"
    using dg(1-4) [THEN digit_value_le] by (simp add: Number_4)
  have fy: "MakeFullYear ?y = ?y"
    using h(1) by (simp add: MakeFullYear_def)
  let ?t = "(DayFromYear ?y + month_start (InLeapYear ?y) (?m - 1) + ?d - 1) * msPerDay"
  have md: "MakeDay (MakeFullYear ?y) (?m - 1) ?d * msPerDay = ?t"
    using h(2,3) by (simp add: fy MakeDay_in_year)
  have pads: "pad_number 4 ?y = ?ys" "pad_number 2 ?m = ?ms" "pad_number 2 ?d = ?ds"
    using dg pad_number_digits [of ?ys] pad_number_digits [of ?ms] pad_number_digits [of ?ds]
    by (simp_all add: numeral_eq_Suc)
  have "iso_date_part ?t = pad_number 4 ?y @ ''-'' @ pad_number 2 ?m @ ''-'' @ pad_number 2 ?d"
  proof (rule iso_date_part_fields)
    show "YearFromTime ?t = ?y" "MonthFromTime ?t = ?m - 1" "DateFromTime ?t = ?d"
      using h by (simp_all add: calendar_fields)
    show "0 \<le> ?y" using h(1) by simp
    show "?y \<le> 9999" by (rule y)
    show "CHR ''T'' \<notin> set (pad_number 4 ?y @ ''-'' @ pad_number 2 ?m @ ''-'' @ pad_number 2 ?d)"
      unfolding pads using dg [THEN T_not_digit] by auto
  qed
  then have "iso_date_part ?t = s"
    by (simp add: pads s)
  then show ?thesis
    using strict_literal_parsed [OF assms(1)] assms(1)
    unfolding tk md by (simp add: normalizeDateToISO_def tk)
qed

theorem normalizeDateToISO_calendar_date_witness:
  "\<forall>dateParse. normalizeDateToISO dateParse ''2024-05-20'' = Inr ''2024-05-20''"
proof
  fix dateParse
  have "strict_date ''2024-05-20''"
    and "100 \<le> Number (take 4 ''2024-05-20'')"
    and "1 \<le> Number (take 2 (drop 5 ''2024-05-20''))"
    and "Number (take 2 (drop 5 ''2024-05-20'')) \<le> 12"
    and "1 \<le> Number (drop 8 ''2024-05-20'')"
    and "Number (drop 8 ''2024-05-20'')
           \<le> days_in_month (InLeapYear (Number (take 4 ''2024-05-20'')))
               (Number (take 2 (drop 5 ''2024-05-20'')))"
    by code_simp+
  then show "normalizeDateToISO dateParse ''2024-05-20'' = Inr ''2024-05-20''"
    by (rule normalizeDateToISO_calendar_date)
qed

subsection \<open>Components out of range\<close>

text \<open>
  The month and the date of a time value are a month and a day of that month, and the
  decimal rendering of a number pads it to digits that read back as the number.
\<close>

lemma DayWithinYear_bounds:
  "0 \<le> DayWithinYear t \<and> DayWithinYear t < (if InLeapYear (YearFromTime t) then 366 else 365)"
  using YearFromTime_spec [of t] DayFromYear_next [of "YearFromTime t"]
  by (auto simp: DayWithinYear_def split: if_splits)

lemma month_date_of_day:
  assumes "0 \<le> w" and "w < (if leap then 366 else 365)"
  defines "m \<equiv> (if w < month_start leap 1 then 0 else if w < month_start leap 2 then 1
         else if w < month_start leap 3 then 2 else if w < month_start leap 4 then 3
         else if w < month_start leap 5 then 4 else if w < month_start leap 6 then 5
         else if w < month_start leap 7 then 6 else if w < month_start leap 8 then 7
         else if w < month_start leap 9 then 8 else if w < month_start leap 10 then 9
         else if w < month_start leap 11 then 10 else (11::int))"
  shows "0 \<le> m \<and> m \<le> 11 \<and> 1 \<le> w - month_start leap m + 1
       \<and> w - month_start leap m + 1 \<le> days_in_month leap (m + 1)"
proof (cases leap)
  case True
  with assms(1,2) show ?thesis
    unfolding m_def by (simp add: month_start_def days_in_month_def)
next
  case False
  with assms(1,2) show ?thesis
    unfolding m_def by (simp add: month_start_def days_in_month_def)
qed

lemma time_fields_valid:
  "0 \<le> MonthFromTime t \<and> MonthFromTime t \<le> 11 \<and> 1 \<le> DateFromTime t
   \<and> DateFromTime t \<le> days_in_month (InLeapYear (YearFromTime t)) (MonthFromTime t + 1)"
  using DayWithinYear_bounds [of t]
    month_date_of_day [of "DayWithinYear t" "InLeapYear (YearFromTime t)"]
  by (simp add: MonthFromTime_def DateFromTime_def Let_def)

lemma toString_digits: "list_all is_digit (toString n)"
proof (induction n rule: toString.induct)
  case (1 n)
  show ?case
  proof (cases "n < 10")
    case True
    then show ?thesis by (simp add: toString.simps [of n] is_digit_unit)
  next
    case False
    then show ?thesis using 1 by (simp add: toString.simps [of n] is_digit_unit)
  qed
qed

lemma toString_length: "0 < k \<Longrightarrow> n < 10 ^ k \<Longrightarrow> length (toString n) \<le> k"
proof (induction n arbitrary: k rule: toString.induct)
  case (1 n)
  show ?case
  proof (cases "n < 10")
    case True
    then show ?thesis using 1(2) by (simp add: toString.simps [of n])
  next
    case False
    with 1(3) have k: "1 < k"
      by (cases "k = 1") (use 1(2) in auto)
    then obtain j where j: "k = Suc j" "0 < j"
      by (cases k) auto
    have "n div 10 < 10 ^ j"
      using 1(3) j by (simp add: less_mult_imp_div_less mult.commute)
    then have "length (toString (n div 10)) \<le> j"
      using 1(1) [OF False j(2)] by simp
    then show ?thesis using False j by (simp add: toString.simps [of n])
  qed
qed

lemma parseInt10_zeros: "parseInt10 (replicate z (CHR ''0'') @ xs) = parseInt10 xs"
proof -
  have "foldl (\<lambda>n c. 10 * n + digit_value c) 0 (replicate z (CHR ''0'')) = 0"
    by (induction z) (simp_all add: digit_value_def unit_code_def)
  then show ?thesis
    by (simp add: parseInt10_def)
qed

lemma pad_number_shape:
  assumes "0 \<le> v" and "v < 10 ^ k" and "0 < k"
  shows "length (pad_number k v) = k" and "list_all is_digit (pad_number k v)"
    and "Number (pad_number k v) = v"
proof -
  have "nat v < 10 ^ k"
    using assms(1,2) by (metis nat_less_iff of_nat_numeral of_nat_power)
  then have len: "length (toString (nat v)) \<le> k"
    using assms(3) by (intro toString_length)
  then show "length (pad_number k v) = k"
    by (simp add: pad_number_def padStart_def)
  have "is_digit (CHR ''0'')"
    by (simp add: is_digit_def unit_code_def)
  then show "list_all is_digit (pad_number k v)"
    using toString_digits [of "nat v"]
    by (auto simp: pad_number_def padStart_def list_all_iff)
  show "Number (pad_number k v) = v"
    using assms(1)
    by (simp add: pad_number_def padStart_def Number_def parseInt10_zeros parseInt10_toString)
qed

lemma literal_of_fields:
  assumes "length ys = 4" "length ms = 2" "length ds = 2"
    and "list_all is_digit ys" "list_all is_digit ms" "list_all is_digit ds"
  shows "strict_date (ys @ ''-'' @ ms @ ''-'' @ ds)"
    and "take 4 (ys @ ''-'' @ ms @ ''-'' @ ds) = ys"
    and "take 2 (drop 5 (ys @ ''-'' @ ms @ ''-'' @ ds)) = ms"
    and "drop 8 (ys @ ''-'' @ ms @ ''-'' @ ds) = ds"
proof -
  from assms(1) obtain a b c d where ys: "ys = [a, b, c, d]"
    by (auto simp: numeral_eq_Suc length_Suc_conv)
  from assms(2) obtain e f where ms: "ms = [e, f]"
    by (auto simp: numeral_eq_Suc length_Suc_conv)
  from assms(3) obtain g h where ds: "ds = [g, h]"
    by (auto simp: numeral_eq_Suc length_Suc_conv)
  show "strict_date (ys @ ''-'' @ ms @ ''-'' @ ds)"
    using assms(4-6) by (simp add: ys ms ds strict_date_def)
  show "take 4 (ys @ ''-'' @ ms @ ''-'' @ ds) = ys"
    "take 2 (drop 5 (ys @ ''-'' @ ms @ ''-'' @ ds)) = ms"
    "drop 8 (ys @ ''-'' @ ms @ ''-'' @ ds) = ds"
    by (simp_all add: ys ms ds)
qed

lemma iso_date_part_calendar:
  assumes "0 \<le> YearFromTime t" and "YearFromTime t \<le> 9999"
  shows "calendar_literal (iso_date_part t) \<and> literal_day (iso_date_part t) = Day t"
proof -
  let ?y = "YearFromTime t" and ?m = "MonthFromTime t + 1" and ?d = "DateFromTime t"
  note f = time_fields_valid [of t]
  have dim: "days_in_month (InLeapYear ?y) ?m \<le> 31"
    by (simp add: days_in_month_def)
  let ?ys = "pad_number 4 ?y" and ?ms = "pad_number 2 ?m" and ?ds = "pad_number 2 ?d"
  have y: "length ?ys = 4" "list_all is_digit ?ys" "Number ?ys = ?y"
    using assms by (simp_all add: pad_number_shape)
  have m: "length ?ms = 2" "list_all is_digit ?ms" "Number ?ms = ?m"
    using f by (simp_all add: pad_number_shape)
  have d: "length ?ds = 2" "list_all is_digit ?ds" "Number ?ds = ?d"
    using f dim by (simp_all add: pad_number_shape)
  let ?r = "?ys @ ''-'' @ ?ms @ ''-'' @ ?ds"
  have "CHR ''T'' \<notin> set ?r"
    using y(2) m(2) d(2) by (auto simp: list_all_iff dest: T_not_digit)
  then have r: "iso_date_part t = ?r"
    using assms by (intro iso_date_part_fields) simp_all
  note l = literal_of_fields [OF y(1) m(1) d(1) y(2) m(2) d(2)]
  have "calendar_literal ?r"
    unfolding calendar_literal_def l y m d using f l(1) by simp
  moreover have "literal_day ?r = Day t"
    unfolding literal_day_def l y m d
    by (simp add: month_first_day_def DateFromTime_def DayWithinYear_def)
  ultimately show ?thesis
    unfolding r by blast
qed

text \<open>
  The bounds of the year of a time value, and the first day of the year 0.
\<close>

lemma strict_date_fields:
  assumes "strict_date s"
  shows "0 \<le> Number (take 4 s)" "0 \<le> Number (take 2 (drop 5 s))" "0 \<le> Number (drop 8 s)"
  by (simp_all add: Number_def)

lemma YearFromTime_range:
  assumes "DayFromYear a \<le> Day t" and "Day t < DayFromYear (b + 1)"
  shows "a \<le> YearFromTime t \<and> YearFromTime t \<le> b"
proof -
  note sp = YearFromTime_spec [of t]
  have "a \<le> YearFromTime t"
  proof (rule ccontr)
    assume "\<not> a \<le> YearFromTime t"
    then have "DayFromYear (YearFromTime t + 1) \<le> DayFromYear a"
      by (intro DayFromYear_mono) simp
    with sp assms(1) show False by linarith
  qed
  moreover have "YearFromTime t \<le> b"
  proof (rule ccontr)
    assume "\<not> YearFromTime t \<le> b"
    then have "DayFromYear (b + 1) \<le> DayFromYear (YearFromTime t)"
      by (intro DayFromYear_mono) simp
    with sp assms(2) show False by linarith
  qed
  ultimately show ?thesis ..
qed

lemma DayFromYear_0: "DayFromYear 0 = -719528"
  by (simp add: DayFromYear_def)

text \<open>
  From the year 10000 on the rendering starts with a sign, which no strict literal does.
\<close>

lemma iso_date_part_expanded:
  assumes "10000 \<le> YearFromTime t"
  shows "\<exists>r. iso_date_part t = CHR ''+'' # r"
proof -
  obtain rest where "toISOString t = CHR ''+'' # rest"
    using assms by (simp add: toISOString_def iso_year_def Let_def)
  then show ?thesis
    by (auto simp: iso_date_part_def split: list.splits)
qed

lemma plus_not_strict_date: "\<not> strict_date (CHR ''+'' # r)"
  by (simp add: strict_date_def take_Cons' is_digit_def unit_code_def)

text \<open>
  C10 (as the code has it). A strict literal never raises, whatever its month and day.
  When its year is 0100
  or later and the day its fields reach lies before the year 10000, the answer is a
  canonical date and denotes exactly that day: months beyond 12 and days beyond the end
  of the month are carried over, across as many months and years as it takes;
  \<^verbatim>\<open>2024-02-30\<close> gives \<^verbatim>\<open>2024-03-01\<close>. When the day reached lies in the
  year 10000 or later, the answer is not of the shape \<^verbatim>\<open>YYYY-MM-DD\<close>.
\<close>

theorem normalizeDateToISO_carries_over:
  assumes "strict_date s"
  shows "\<exists>r. normalizeDateToISO dateParse s = Inr r
     \<and> (100 \<le> Number (take 4 s) \<and> reached_day s < DayFromYear 10000
          \<longrightarrow> calendar_literal r \<and> literal_day r = reached_day s)
     \<and> (100 \<le> Number (take 4 s) \<and> DayFromYear 10000 \<le> reached_day s
          \<longrightarrow> \<not> strict_date r)"
proof -
  let ?Y = "Number (take 4 s)" and ?M = "Number (take 2 (drop 5 s))" and ?D = "Number (drop 8 s)"
  let ?t = "MakeDay (MakeFullYear ?Y) (?M - 1) ?D * msPerDay"
  have res: "normalizeDateToISO dateParse s = Inr (iso_date_part ?t)"
    using assms strict_literal_parsed [OF assms] by (simp add: normalizeDateToISO_def)
  have day: "Day ?t = reached_day s" if "100 \<le> ?Y"
    using that by (simp add: Day_midnight MakeFullYear_def MakeDay_def reached_day_def
        month_first_day_def Let_def)
  have "calendar_literal (iso_date_part ?t) \<and> literal_day (iso_date_part ?t) = reached_day s"
    if y: "100 \<le> ?Y" and top: "reached_day s < DayFromYear 10000"
  proof -
    have "-1 \<le> (?M - 1) div 12"
      using strict_date_fields(2) [OF assms] zdiv_mono1 [of "-1" "?M - 1" 12] by simp
    then have "DayFromYear 99 \<le> DayFromYear (?Y + (?M - 1) div 12)"
      using y by (intro DayFromYear_mono) linarith
    then have low: "DayFromYear 0 \<le> reached_day s"
      using strict_date_fields(3) [OF assms]
        month_start_bounds [of "InLeapYear (?Y + (?M - 1) div 12)" "(?M - 1) mod 12"]
      by (simp add: reached_day_def month_first_day_def DayFromYear_99 DayFromYear_0)
    have "0 \<le> YearFromTime ?t \<and> YearFromTime ?t \<le> 9999"
      using low top by (intro YearFromTime_range) (simp_all add: day [OF y])
    then show ?thesis
      using iso_date_part_calendar [of ?t] by (simp add: day [OF y])
  qed
  moreover have "\<not> strict_date (iso_date_part ?t)"
    if y: "100 \<le> ?Y" and top: "DayFromYear 10000 \<le> reached_day s"
  proof -
    have "10000 \<le> YearFromTime ?t"
    proof (rule ccontr)
      assume "\<not> 10000 \<le> YearFromTime ?t"
      then have "DayFromYear (YearFromTime ?t + 1) \<le> DayFromYear 10000"
        by (intro DayFromYear_mono) simp
      with YearFromTime_spec [of ?t] top show False
        by (simp add: day [OF y])
    qed
    then show ?thesis
      using iso_date_part_expanded [of ?t] plus_not_strict_date by auto
  qed
  ultimately show ?thesis
    using res by blast
qed

theorem normalizeDateToISO_carries_over_witness:
  "strict_date ''2024-02-30''
   \<and> normalizeDateToISO unparsed ''2024-02-30'' = Inr ''2024-03-01''
   \<and> (\<exists>r. normalizeDateToISO unparsed ''2024-02-30'' = Inr r
        \<and> calendar_literal r \<and> literal_day r = reached_day ''2024-02-30'')
   \<and> strict_date ''9999-12-32''
   \<and> (\<exists>r. normalizeDateToISO unparsed ''9999-12-32'' = Inr r \<and> \<not> strict_date r)"
proof -
  have h: "strict_date ''2024-02-30''" "strict_date ''9999-12-32''"
    by code_simp+
  have c: "100 \<le> Number (take 4 ''2024-02-30'')"
    "reached_day ''2024-02-30'' < DayFromYear 10000"
    "100 \<le> Number (take 4 ''9999-12-32'')"
    "DayFromYear 10000 \<le> reached_day ''9999-12-32''"
    by code_simp+
  have e: "normalizeDateToISO unparsed ''2024-02-30'' = Inr ''2024-03-01''"
    by code_simp
  show ?thesis
    using normalizeDateToISO_carries_over [OF h(1), of unparsed]
      normalizeDateToISO_carries_over [OF h(2), of unparsed] h c e by simp
qed

text \<open>
  A canonical date of the year 0100 or later is the rendering of the day it denotes, so
  two such dates that denote the same day are equal: the theorem above determines the
  answer.
\<close>

lemma calendar_literal_fixed:
  assumes "calendar_literal r" and "100 \<le> Number (take 4 r)"
  shows "iso_date_part (literal_day r * msPerDay) = r"
proof -
  have c: "strict_date r" "1 \<le> Number (take 2 (drop 5 r))" "Number (take 2 (drop 5 r)) \<le> 12"
    "1 \<le> Number (drop 8 r)"
    "Number (drop 8 r) \<le> days_in_month (InLeapYear (Number (take 4 r))) (Number (take 2 (drop 5 r)))"
    using assms(1) by (simp_all add: calendar_literal_def)
  have "normalizeDateToISO unparsed r = Inr r"
    using c(1) assms(2) c(2-5) by (rule normalizeDateToISO_calendar_date)
  moreover have "MakeDay (MakeFullYear (Number (take 4 r))) (Number (take 2 (drop 5 r)) - 1)
      (Number (drop 8 r)) = literal_day r"
    using assms(2) c(2,3)
    by (simp add: MakeFullYear_def MakeDay_in_year literal_day_def month_first_day_def)
  ultimately show ?thesis
    using strict_literal_parsed [OF c(1)] c(1) by (simp add: normalizeDateToISO_def)
qed

lemma calendar_literal_unique:
  assumes "calendar_literal r" and "calendar_literal r'" and "literal_day r = literal_day r'"
    and "100 \<le> Number (take 4 r)" and "100 \<le> Number (take 4 r')"
  shows "r = r'"
proof -
  have "r = iso_date_part (literal_day r * msPerDay)"
    using calendar_literal_fixed [OF assms(1,4)] by (rule sym)
  also have "\<dots> = iso_date_part (literal_day r' * msPerDay)"
    by (simp only: assms(3))
  also have "\<dots> = r'"
    by (rule calendar_literal_fixed [OF assms(2,5)])
  finally show ?thesis .
qed

text \<open>
  1 January 10000 is rendered with a sign and six digits, the expanded year of
  \<^verbatim>\<open>toISOString\<close>.
\<close>

lemma year_10000_first_day:
  "iso_date_part (2932897 * msPerDay) = ''+010000-01-01''"
proof -
  let ?t = "2932897 * msPerDay"
  have y: "YearFromTime ?t = 10000"
    by (rule YearFromTime_unique) (simp_all add: Day_midnight DayFromYear_def)
  have w: "DayWithinYear ?t = 0"
    by (simp add: DayWithinYear_def y Day_midnight DayFromYear_def)
  have m: "MonthFromTime ?t = 0"
    by (simp add: MonthFromTime_def w month_start_def)
  have d: "DateFromTime ?t = 1"
    by (simp add: DateFromTime_def w m month_start_def)
  have "pad_number (length ''010000'') (Number ''010000'') = ''010000''"
    and "pad_number (length ''01'') (Number ''01'') = ''01''"
    by (rule pad_number_digits; simp add: is_digit_def unit_code_def)+
  moreover have "Number ''010000'' = 10000" "Number ''01'' = 1"
    by (simp_all add: Number_def parseInt10_def digit_value_def unit_code_def)
  ultimately have p: "pad_number 6 10000 = ''010000''" "pad_number 2 1 = ''01''"
    by (simp_all add: eval_nat_numeral)
  obtain rest where "toISOString ?t = ''+010000-01-01'' @ CHR ''T'' # rest"
    by (simp add: toISOString_def y m d iso_year_def p)
  moreover have "CHR ''T'' \<notin> set ''+010000-01-01''"
    by simp
  ultimately show ?thesis
    using split_on_first [of "CHR ''T''" "''+010000-01-01''"] by (simp add: iso_date_part_def)
qed

text \<open>
  C10 (as the specification states it) fails: the day 99 of January is carried three
  months on, not into the adjacent month; the day after 31 December 9999 comes back with
  an expanded year, which is not a canonical date; and a year 0000 to 0099 comes back
  1900 years later.
\<close>

theorem normalizeDateToISO_rollover_counterexample:
  "normalizeDateToISO unparsed ''2024-01-99'' = Inr ''2024-04-08''
   \<and> normalizeDateToISO unparsed ''9999-12-32'' = Inr ''+010000-01-01''
   \<and> \<not> strict_date ''+010000-01-01''
   \<and> normalizeDateToISO unparsed ''0050-02-30'' = Inr ''1950-03-02''"
proof -
  have "normalizeDateToISO unparsed ''2024-01-99'' = Inr ''2024-04-08''"
    by code_simp
  moreover have "normalizeDateToISO unparsed ''0050-02-30'' = Inr ''1950-03-02''"
    by code_simp
  moreover have "\<not> strict_date ''+010000-01-01''"
    by code_simp
  moreover have "normalizeDateToISO unparsed ''9999-12-32'' = Inr ''+010000-01-01''"
  proof -
    have "strict_date ''9999-12-32''"
      by code_simp
    moreover have "(case map Number (split_on (CHR ''-'') ''9999-12-32'') of
        [year, month, day] \<Rightarrow> Date_UTC year (month - 1) day | _ \<Rightarrow> None)
        = Some (2932897 * msPerDay)"
      by code_simp
    ultimately show ?thesis
      by (simp add: normalizeDateToISO_def year_10000_first_day)
  qed
  ultimately show ?thesis
    by simp
qed

subsection \<open>Other inputs\<close>

text \<open>
  An input that is not a strict literal and that the host cannot parse raises the error
  that quotes it; one that the host parses gives the UTC date of the parsed time.
\<close>

theorem normalizeDateToISO_general_parse:
  assumes "\<not> strict_date s"
  shows "normalizeDateToISO dateParse s =
    (case dateParse s of
       None \<Rightarrow> Inl (Error (''Invalid date format: '' @ s))
     | Some t \<Rightarrow> Inr (iso_date_part t))"
  using assms by (simp add: normalizeDateToISO_def)

theorem normalizeDateToISO_general_parse_witness:
  "\<not> strict_date ''5/20/2024''
   \<and> normalizeDateToISO (\<lambda>_. None) ''5/20/2024'' = Inl (Error ''Invalid date format: 5/20/2024'')
   \<and> normalizeDateToISO (\<lambda>_. Some 1716163200000) ''5/20/2024'' = Inr ''2024-05-20''"
proof -
  have h: "\<not> strict_date ''5/20/2024''"
    by code_simp
  have "iso_date_part 1716163200000 = ''2024-05-20''"
    by code_simp
  then show ?thesis
    using h normalizeDateToISO_general_parse [OF h, of "\<lambda>_. None"]
      normalizeDateToISO_general_parse [OF h, of "\<lambda>_. Some 1716163200000"]
    by simp
qed

section \<open>The Event pre-save hook\<close>

subsection \<open>The slug probe\<close>




lemma candidate_not_base: "candidate b k \<noteq> b" "b \<noteq> candidate b k"
  by (simp_all add: candidate_def)

lemma probe_slug_free: "\<not> slug_exists db s i \<Longrightarrow> probe_slug db i b s n = s"
  by (simp add: probe_slug.simps [of db i b s n])

lemma probe_slug_taken:
  "slug_exists db s i \<Longrightarrow> probe_slug db i b s n = probe_slug db i b (candidate b n) (Suc n)"
  by (simp add: probe_slug.simps [of db i b s n])

lemma save_event_new:
  assumes "isNew doc" and "save_event dateParse db doc = (Inr e, db')"
  shows "slug e = probe_slug db (ident doc) (generateSlug (title doc)) (generateSlug (title doc)) 1
       \<and> ident e = ident doc \<and> db' = db @ [e]"
proof -
  obtain doc' r where h: "eventPreSave dateParse db doc = (doc', r)"
    by (cases "eventPreSave dateParse db doc")
  with assms(2) have r: "r = None" and e: "e = doc'\<lparr>isNew := False, modified := []\<rparr>"
    and db': "db' = write_event db doc e"
    by (auto simp: save_event_def Let_def split: option.splits)
  have "slug doc' = slug (assign_slug db doc) \<and> ident doc' = ident (assign_slug db doc)"
    using h by (auto simp: eventPreSave_def Let_def split: sum.splits if_splits)
  then show ?thesis
    using assms(1) e db' by (simp add: assign_slug_def Let_def write_event_def)
qed

text \<open>
  Three new records with the same title, saved one after the other into an empty
  collection, get the base slug, the base slug with \<^verbatim>\<open>-1\<close> and the base slug with
  \<^verbatim>\<open>-2\<close>.
\<close>

theorem same_title_saves:
  assumes new: "isNew d1" "isNew d2" "isNew d3"
    and same: "title d2 = title d1" "title d3 = title d1"
    and ids: "ident d2 \<noteq> ident d1" "ident d3 \<noteq> ident d1" "ident d3 \<noteq> ident d2"
    and s1: "save_event dateParse [] d1 = (Inr e1, db1)"
    and s2: "save_event dateParse db1 d2 = (Inr e2, db2)"
    and s3: "save_event dateParse db2 d3 = (Inr e3, db3)"
  shows "slug e1 = generateSlug (title d1)
       \<and> slug e2 = generateSlug (title d1) @ ''-1''
       \<and> slug e3 = generateSlug (title d1) @ ''-2''"
proof -
  let ?b = "generateSlug (title d1)"
  have "toString 1 = ''1''" "toString 2 = ''2''"
    by code_simp+
  then have c1: "candidate ?b 1 = ?b @ ''-1''" and c2: "candidate ?b 2 = ?b @ ''-2''"
    by (simp_all add: candidate_def)
  have n12: "candidate ?b 2 \<noteq> candidate ?b 1" "candidate ?b (Suc (Suc 0)) \<noteq> candidate ?b (Suc 0)"
    using candidate_inj [of ?b 2 1] candidate_inj [of ?b "Suc (Suc 0)" "Suc 0"] by auto
  from save_event_new [OF new(1) s1]
  have e1: "slug e1 = ?b" "ident e1 = ident d1" "db1 = [e1]"
    by (simp_all add: probe_slug_free slug_exists_def)
  from save_event_new [OF new(2) s2]
  have e2: "slug e2 = candidate ?b 1" "ident e2 = ident d2" "db2 = [e1, e2]"
    using e1 ids same
    by (simp_all add: probe_slug_free probe_slug_taken slug_exists_def candidate_not_base)
  from save_event_new [OF new(3) s3]
  have e3: "slug e3 = candidate ?b 2"
    using e1 e2 ids same n12
    by (simp add: probe_slug_free probe_slug_taken slug_exists_def candidate_not_base numeral_2_eq_2)
  show ?thesis
    using e1 e2 e3 c1 c2 by simp
qed

theorem same_title_saves_witness:
  "save_event (\<lambda>_. None) [] (draft_event ''a'' ''Dev Day'')
     = (Inr (stored_event ''a'' ''Dev Day'' ''dev-day''), [stored_event ''a'' ''Dev Day'' ''dev-day''])
   \<and> save_event (\<lambda>_. None) [stored_event ''a'' ''Dev Day'' ''dev-day''] (draft_event ''b'' ''Dev Day'')
     = (Inr (stored_event ''b'' ''Dev Day'' ''dev-day-1''),
        [stored_event ''a'' ''Dev Day'' ''dev-day'', stored_event ''b'' ''Dev Day'' ''dev-day-1''])
   \<and> save_event (\<lambda>_. None)
        [stored_event ''a'' ''Dev Day'' ''dev-day'', stored_event ''b'' ''Dev Day'' ''dev-day-1'']
        (draft_event ''c'' ''Dev Day'')
     = (Inr (stored_event ''c'' ''Dev Day'' ''dev-day-2''),
        [stored_event ''a'' ''Dev Day'' ''dev-day'', stored_event ''b'' ''Dev Day'' ''dev-day-1'',
         stored_event ''c'' ''Dev Day'' ''dev-day-2''])
   \<and> slug (stored_event ''a'' ''Dev Day'' ''dev-day'') = generateSlug ''Dev Day''
   \<and> slug (stored_event ''b'' ''Dev Day'' ''dev-day-1'') = generateSlug ''Dev Day'' @ ''-1''
   \<and> slug (stored_event ''c'' ''Dev Day'' ''dev-day-2'') = generateSlug ''Dev Day'' @ ''-2''"
proof -
  let ?a = "stored_event ''a'' ''Dev Day'' ''dev-day''"
  let ?b = "stored_event ''b'' ''Dev Day'' ''dev-day-1''"
  let ?c = "stored_event ''c'' ''Dev Day'' ''dev-day-2''"
  have s1: "save_event (\<lambda>_. None) [] (draft_event ''a'' ''Dev Day'') = (Inr ?a, [?a])"
    by code_simp
  have s2: "save_event (\<lambda>_. None) [?a] (draft_event ''b'' ''Dev Day'') = (Inr ?b, [?a, ?b])"
    by code_simp
  have s3: "save_event (\<lambda>_. None) [?a, ?b] (draft_event ''c'' ''Dev Day'') = (Inr ?c, [?a, ?b, ?c])"
    by code_simp
  have "slug ?a = generateSlug (title (draft_event ''a'' ''Dev Day''))
      \<and> slug ?b = generateSlug (title (draft_event ''a'' ''Dev Day'')) @ ''-1''
      \<and> slug ?c = generateSlug (title (draft_event ''a'' ''Dev Day'')) @ ''-2''"
    by (rule same_title_saves [OF _ _ _ _ _ _ _ _ s1 s2 s3]) (simp_all add: draft_event_def)
  then show ?thesis
    using s1 s2 s3 by (simp add: draft_event_def)
qed

text \<open>
  The slug that the probe returns is the slug of no other record, so saving a new record
  keeps the slugs of the collection distinct.
\<close>

lemma probe_result_free: "\<not> slug_exists db (probe_slug db i b s n) i"
proof (induction db i b s n rule: probe_slug.induct)
  case (1 db i b s n)
  then show ?case
    by (cases "slug_exists db s i") (simp_all add: probe_slug_free probe_slug_taken)
qed

theorem save_event_slugs_distinct:
  assumes "distinct (map slug db)" and "isNew doc" and "ident doc \<notin> ident ` set db"
    and "save_event dateParse db doc = (Inr e, db')"
  shows "distinct (map slug db')"
proof -
  from save_event_new [OF assms(2,4)]
  have e: "slug e = probe_slug db (ident doc) (generateSlug (title doc)) (generateSlug (title doc)) 1"
    and db': "db' = db @ [e]"
    by simp_all
  have "\<not> slug_exists db (slug e) (ident doc)"
    unfolding e by (rule probe_result_free)
  then have free: "\<And>x. x \<in> set db \<Longrightarrow> slug x = slug e \<Longrightarrow> ident x = ident doc"
    by (auto simp: slug_exists_def list_ex_iff)
  have "slug e \<notin> slug ` set db"
  proof
    assume "slug e \<in> slug ` set db"
    then obtain x where x: "x \<in> set db" "slug x = slug e"
      by (metis imageE)
    with free have "ident x = ident doc" by blast
    with x(1) assms(3) show False by (metis imageI)
  qed
  then show ?thesis
    using assms(1) db' by simp
qed

theorem save_event_slugs_distinct_witness:
  "distinct (map slug [stored_event ''a'' ''Dev Day'' ''dev-day''])
   \<and> isNew (draft_event ''b'' ''Dev Day'')
   \<and> ident (draft_event ''b'' ''Dev Day'') \<notin> ident ` set [stored_event ''a'' ''Dev Day'' ''dev-day'']
   \<and> distinct (map slug
         [stored_event ''a'' ''Dev Day'' ''dev-day'', stored_event ''b'' ''Dev Day'' ''dev-day-1''])"
proof -
  let ?a = "stored_event ''a'' ''Dev Day'' ''dev-day''"
  let ?b = "stored_event ''b'' ''Dev Day'' ''dev-day-1''"
  have s2: "save_event (\<lambda>_. None) [?a] (draft_event ''b'' ''Dev Day'') = (Inr ?b, [?a, ?b])"
    by code_simp
  have h: "distinct (map slug [?a])" "isNew (draft_event ''b'' ''Dev Day'')"
    "ident (draft_event ''b'' ''Dev Day'') \<notin> ident ` set [?a]"
    by (simp_all add: stored_event_def draft_event_def)
  show ?thesis
    using save_event_slugs_distinct [OF h s2] h by simp
qed

subsection \<open>Updates that leave title, date and time alone\<close>

text \<open>
  C8. For an update (a document that is not new) that modified neither
  \<^verbatim>\<open>title\<close>, \<^verbatim>\<open>date\<close> nor \<^verbatim>\<open>time\<close>, the hook leaves \<^verbatim>\<open>slug\<close>,
  \<^verbatim>\<open>date\<close> and \<^verbatim>\<open>time\<close> as they were, whatever else changed and whether or not
  the required-field check then fails.
\<close>

theorem eventPreSave_frame:
  assumes "\<not> isNew doc" and "\<not> isModified doc ''title''"
    and "\<not> isModified doc ''date''" and "\<not> isModified doc ''time''"
  shows "slug (fst (eventPreSave dateParse db doc)) = slug doc
       \<and> date (fst (eventPreSave dateParse db doc)) = date doc
       \<and> time (fst (eventPreSave dateParse db doc)) = time doc"
  using assms by (simp add: eventPreSave_def assign_slug_def isModified_def Let_def)

theorem eventPreSave_frame_witness:
  "\<not> isNew ((stored_event ''a'' ''Dev Day'' ''dev-day'')\<lparr>description := ''New text'', modified := [''description'']\<rparr>)
   \<and> slug (fst (eventPreSave (\<lambda>_. None) [stored_event ''a'' ''Dev Day'' ''dev-day'']
        ((stored_event ''a'' ''Dev Day'' ''dev-day'')\<lparr>description := ''New text'', modified := [''description'']\<rparr>))) = ''dev-day''
   \<and> date (fst (eventPreSave (\<lambda>_. None) [stored_event ''a'' ''Dev Day'' ''dev-day'']
        ((stored_event ''a'' ''Dev Day'' ''dev-day'')\<lparr>description := ''New text'', modified := [''description'']\<rparr>))) = ''2024-05-20''
   \<and> time (fst (eventPreSave (\<lambda>_. None) [stored_event ''a'' ''Dev Day'' ''dev-day'']
        ((stored_event ''a'' ''Dev Day'' ''dev-day'')\<lparr>description := ''New text'', modified := [''description'']\<rparr>))) = ''14:30''"
  using eventPreSave_frame [of "(stored_event ''a'' ''Dev Day'' ''dev-day'')\<lparr>description := ''New text'', modified := [''description'']\<rparr>"
      "\<lambda>_. None" "[stored_event ''a'' ''Dev Day'' ''dev-day'']"]
  by (simp add: stored_event_def draft_event_def isModified_def)

section \<open>The Booking pre-save hook\<close>

text \<open>
  The hook on its own: an email that fails the pattern ends it with an error that quotes
  the email, before the lookup.
\<close>

theorem bookingPreSave_email:
  assumes "\<not> EMAIL_REGEX_test (email b)"
  shows "bookingPreSave db b = (Some (Error (''Invalid email format: '' @ email b)), [])"
  using assms by (simp add: bookingPreSave_def)

theorem bookingPreSave_email_witness:
  "bookingPreSave [] \<lparr>eventId = ''e1'', email = ''not-an-email''\<rparr>
     = (Some (Error ''Invalid email format: not-an-email''), [])"
proof -
  have "\<not> EMAIL_REGEX_test ''not-an-email''"
    by code_simp
  then show ?thesis
    using bookingPreSave_email [of "\<lparr>eventId = ''e1'', email = ''not-an-email''\<rparr>" "[]"] by simp
qed

text \<open>
  C7. A booking whose email fails the pattern is refused by the validation of the
  schema, which runs before the hook: the save ends with the \<^verbatim>\<open>ValidationError\<close>
  of the path \<^verbatim>\<open>email\<close>, whose \<^verbatim>\<open>ValidatorError\<close> carries the email refused,
  and the storage is left as it was: no lookup, no write. A booking with a valid email
  whose event does not exist is refused by the hook with an error that names the
  identifier, after the one existence lookup and without a booking being written.
\<close>

theorem save_booking_rejects:
  "(\<not> EMAIL_REGEX_test (email b) \<longrightarrow>
      snd (save_booking st b) = st
      \<and> fst (save_booking st b) =
          Inl (ValidationError
                (''Booking validation failed: email: ''
                   @ (if email b = [] then ''Email is required'' else ''Invalid email format''))
                [ValidatorError
                   (if email b = [] then ''Email is required'' else ''Invalid email format'')
                   ''email'' (email b)]))
   \<and> (EMAIL_REGEX_test (email b) \<and> \<not> event_exists (events st) (eventId b) \<longrightarrow>
      fst (save_booking st b)
        = Inl (HookError (Error (''Event with ID '' @ eventId b @ '' does not exist'')))
      \<and> bookings (snd (save_booking st b)) = bookings st
      \<and> events (snd (save_booking st b)) = events st
      \<and> oplog (snd (save_booking st b)) = oplog st @ [EventExists (eventId b)])"
proof -
  have "EMAIL_REGEX_test (email b) \<Longrightarrow> email b \<noteq> []"
    by (auto simp: EMAIL_REGEX_test_def)
  then show ?thesis
    by (auto simp: save_booking_def validateBooking_def validate_email_def validation_failed_def
        bookingPreSave_def Let_def)
qed

theorem save_booking_rejects_witness:
  "\<not> EMAIL_REGEX_test ''not-an-email''
   \<and> save_booking \<lparr>events = [stored_event ''e1'' ''Dev Day'' ''dev-day''], bookings = [], oplog = []\<rparr>
        \<lparr>eventId = ''e1'', email = ''not-an-email''\<rparr>
      = (Inl (ValidationError ''Booking validation failed: email: Invalid email format''
               [ValidatorError ''Invalid email format'' ''email'' ''not-an-email'']),
         \<lparr>events = [stored_event ''e1'' ''Dev Day'' ''dev-day''], bookings = [], oplog = []\<rparr>)
   \<and> EMAIL_REGEX_test ''ann@example.com''
   \<and> \<not> event_exists [stored_event ''e1'' ''Dev Day'' ''dev-day''] ''e2''
   \<and> save_booking \<lparr>events = [stored_event ''e1'' ''Dev Day'' ''dev-day''], bookings = [], oplog = []\<rparr>
        \<lparr>eventId = ''e2'', email = ''ann@example.com''\<rparr>
      = (Inl (HookError (Error ''Event with ID e2 does not exist'')),
         \<lparr>events = [stored_event ''e1'' ''Dev Day'' ''dev-day''], bookings = [],
          oplog = [EventExists ''e2'']\<rparr>)"
proof -
  let ?st = "\<lparr>events = [stored_event ''e1'' ''Dev Day'' ''dev-day''], bookings = [], oplog = []\<rparr>"
  have a: "\<not> EMAIL_REGEX_test ''not-an-email''" and b: "EMAIL_REGEX_test ''ann@example.com''"
    and c: "\<not> event_exists [stored_event ''e1'' ''Dev Day'' ''dev-day''] ''e2''"
    by code_simp+
  show ?thesis
    using save_booking_rejects [of "\<lparr>eventId = ''e1'', email = ''not-an-email''\<rparr>" ?st]
      save_booking_rejects [of "\<lparr>eventId = ''e2'', email = ''ann@example.com''\<rparr>" ?st] a b c
    by (simp add: prod_eq_iff)
qed

text \<open>
  A booking that passes both is written: with a valid email and an existing event the
  save makes the one lookup and inserts the document.
\<close>

theorem save_booking_accepts:
  assumes "EMAIL_REGEX_test (email b)" and "event_exists (events st) (eventId b)"
  shows "save_booking st b =
    (Inr b, st\<lparr>bookings := bookings st @ [b],
              oplog := oplog st @ [EventExists (eventId b), BookingInsert b]\<rparr>)"
proof -
  have "email b \<noteq> []"
    using assms(1) by (auto simp: EMAIL_REGEX_test_def)
  then show ?thesis
    using assms
    by (simp add: save_booking_def validateBooking_def validate_email_def bookingPreSave_def Let_def)
qed

theorem save_booking_accepts_witness:
  "new_Booking ''e1'' '' Ann@Example.com '' = \<lparr>eventId = ''e1'', email = ''ann@example.com''\<rparr>
   \<and> save_booking \<lparr>events = [stored_event ''e1'' ''Dev Day'' ''dev-day''], bookings = [], oplog = []\<rparr>
        (new_Booking ''e1'' '' Ann@Example.com '')
      = (Inr \<lparr>eventId = ''e1'', email = ''ann@example.com''\<rparr>,
         \<lparr>events = [stored_event ''e1'' ''Dev Day'' ''dev-day''],
          bookings = [\<lparr>eventId = ''e1'', email = ''ann@example.com''\<rparr>],
          oplog = [EventExists ''e1'', BookingInsert \<lparr>eventId = ''e1'', email = ''ann@example.com''\<rparr>]\<rparr>)"
proof -
  let ?st = "\<lparr>events = [stored_event ''e1'' ''Dev Day'' ''dev-day''], bookings = [], oplog = []\<rparr>"
  have "set_email '' Ann@Example.com '' = ''ann@example.com''"
    by code_simp
  then have n: "new_Booking ''e1'' '' Ann@Example.com '' = \<lparr>eventId = ''e1'', email = ''ann@example.com''\<rparr>"
    by (simp add: new_Booking_def)
  have "EMAIL_REGEX_test ''ann@example.com''"
    and "event_exists [stored_event ''e1'' ''Dev Day'' ''dev-day''] ''e1''"
    by code_simp+
  then show ?thesis
    using save_booking_accepts [of "\<lparr>eventId = ''e1'', email = ''ann@example.com''\<rparr>" ?st]
    by (simp add: n)
qed

text \<open>
  The test of the email is the pattern read as a whole: a local part, an \<^verbatim>\<open>@\<close>,
  a host part, a dot and a last part, the three parts not empty and free of white space
  and \<^verbatim>\<open>@\<close>.
\<close>

lemma email_unit_dot: "email_unit (CHR ''.'')"
  by (simp add: email_unit_def is_space_def unit_code_def)

lemma email_unit_at: "\<not> email_unit (CHR ''@'')"
  by (simp add: email_unit_def)

theorem EMAIL_REGEX_test_iff:
  "EMAIL_REGEX_test s \<longleftrightarrow>
     (\<exists>l d t. s = l @ ''@'' @ d @ ''.'' @ t \<and> l \<noteq> [] \<and> d \<noteq> [] \<and> t \<noteq> []
        \<and> list_all email_unit l \<and> list_all email_unit d \<and> list_all email_unit t)"
proof
  assume "EMAIL_REGEX_test s"
  then obtain host where l: "takeWhile email_unit s \<noteq> []"
    and r: "dropWhile email_unit s = CHR ''@'' # host"
    and h: "list_all email_unit host" and dot: "CHR ''.'' \<in> set (butlast (tl host))"
    by (auto simp: EMAIL_REGEX_test_def split: list.splits)
  from dot obtain xs ys where xy: "butlast (tl host) = xs @ CHR ''.'' # ys"
    by (meson split_list)
  then have "tl host \<noteq> []" by auto
  then have tl: "tl host = xs @ CHR ''.'' # ys @ [last (tl host)]"
    using xy append_butlast_last_id [of "tl host"] by simp
  have "host \<noteq> []" using \<open>tl host \<noteq> []\<close> by auto
  then have host: "host = (hd host # xs) @ ''.'' @ (ys @ [last (tl host)])"
    using tl by (cases host) simp_all
  have s: "s = takeWhile email_unit s @ ''@'' @ host"
    using r takeWhile_dropWhile_id [of email_unit s] by simp
  have "list_all email_unit ((hd host # xs) @ ''.'' @ (ys @ [last (tl host)]))"
    using h host by simp
  then have "list_all email_unit (hd host # xs)" "list_all email_unit (ys @ [last (tl host)])"
    by simp_all
  moreover have "list_all email_unit (takeWhile email_unit s)"
    by (simp add: list_all_iff) (meson set_takeWhileD)
  ultimately show "\<exists>l d t. s = l @ ''@'' @ d @ ''.'' @ t \<and> l \<noteq> [] \<and> d \<noteq> [] \<and> t \<noteq> []
        \<and> list_all email_unit l \<and> list_all email_unit d \<and> list_all email_unit t"
    using l s host
    by (intro exI [of _ "takeWhile email_unit s"] exI [of _ "hd host # xs"]
        exI [of _ "ys @ [last (tl host)]"]) simp
next
  assume "\<exists>l d t. s = l @ ''@'' @ d @ ''.'' @ t \<and> l \<noteq> [] \<and> d \<noteq> [] \<and> t \<noteq> []
        \<and> list_all email_unit l \<and> list_all email_unit d \<and> list_all email_unit t"
  then obtain l d t where s: "s = l @ ''@'' @ d @ ''.'' @ t" and ne: "l \<noteq> []" "d \<noteq> []" "t \<noteq> []"
    and u: "list_all email_unit l" "list_all email_unit d" "list_all email_unit t"
    by blast
  have tw: "takeWhile email_unit s = l" "dropWhile email_unit s = CHR ''@'' # d @ ''.'' @ t"
    using u(1) by (simp_all add: s list_all_iff takeWhile_append2 dropWhile_append2 email_unit_at)
  have "tl (d @ ''.'' @ t) = tl d @ ''.'' @ t"
    using ne(2) by simp
  then have "butlast (tl (d @ ''.'' @ t)) = tl d @ ''.'' @ butlast t"
    using ne(3) by (simp add: butlast_append)
  then have "CHR ''.'' \<in> set (butlast (tl (d @ ''.'' @ t)))"
    by simp
  then show "EMAIL_REGEX_test s"
    using ne(1) u by (simp add: EMAIL_REGEX_test_def tw email_unit_dot)
qed

section \<open>The connection cache\<close>

subsection \<open>The module \<^verbatim>\<open>lib/mongodb.ts\<close>\<close>

text \<open>
  C1. In \<^verbatim>\<open>lib/mongodb.ts\<close> a failed attempt is not cleared. The first
  connection attempt is refused and a second one would connect; yet the second call to
  \<^verbatim>\<open>connectToDatabase\<close> fails with the refusal of the first and the number of
  attempts stays 1. The specification asks for a fresh attempt here, as do the comment of the
  code (a promise is created \<^verbatim>\<open>if not already pending\<close>, and a rejected promise is
  not pending) and the copy in \<^verbatim>\<open>app/providers.tsx\<close>.
\<close>

theorem connectToDatabase_replays_failure:
  "fst (connectToDatabase ''mongodb://db'' refused_once fresh) = Inl (Error ''connect ECONNREFUSED'')
   \<and> refused_once ''mongodb://db'' 1 = Inr ''connection''
   \<and> fst (connectToDatabase ''mongodb://db'' refused_once
          (snd (connectToDatabase ''mongodb://db'' refused_once fresh)))
       = Inl (Error ''connect ECONNREFUSED'')
   \<and> attempts (snd (connectToDatabase ''mongodb://db'' refused_once
          (snd (connectToDatabase ''mongodb://db'' refused_once fresh)))) = 1"
  by (simp add: connectToDatabase_def refused_once_def fresh_def Let_def)

text \<open>
  The same for every failed call of this module: \<^verbatim>\<open>cached.conn\<close> is still empty
  and \<^verbatim>\<open>cached.promise\<close> still holds the rejected promise, so every later call
  fails with the same error and makes no new attempt, whatever a new attempt would give.
\<close>

theorem connectToDatabase_failure_cached:
  assumes "connectToDatabase uri connect rt = (Inl e, rt')"
  shows "conn (cached rt') = None \<and> promise (cached rt') = Some (Promise (Inl e))
       \<and> connectToDatabase uri connect' rt' = (Inl e, rt')"
  using assms
  by (cases rt; cases "cached rt")
    (auto simp: connectToDatabase_def Let_def intro: promise.expand
      split: option.splits sum.splits)

theorem connectToDatabase_failure_cached_witness:
  "connectToDatabase ''mongodb://db'' refused_once fresh
     = (Inl (Error ''connect ECONNREFUSED''),
        \<lparr>cached = \<lparr>conn = None, promise = Some (Promise (Inl (Error ''connect ECONNREFUSED'')))\<rparr>,
         attempts = 1\<rparr>)
   \<and> connectToDatabase ''mongodb://db'' (\<lambda>uri n. Inr ''connection'')
        \<lparr>cached = \<lparr>conn = None, promise = Some (Promise (Inl (Error ''connect ECONNREFUSED'')))\<rparr>,
         attempts = 1\<rparr>
     = (Inl (Error ''connect ECONNREFUSED''),
        \<lparr>cached = \<lparr>conn = None, promise = Some (Promise (Inl (Error ''connect ECONNREFUSED'')))\<rparr>,
         attempts = 1\<rparr>)"
proof -
  have h: "connectToDatabase ''mongodb://db'' refused_once fresh
     = (Inl (Error ''connect ECONNREFUSED''),
        \<lparr>cached = \<lparr>conn = None, promise = Some (Promise (Inl (Error ''connect ECONNREFUSED'')))\<rparr>,
         attempts = 1\<rparr>)"
    by (simp add: connectToDatabase_def refused_once_def fresh_def Let_def)
  show ?thesis
    using connectToDatabase_failure_cached [OF h, of "\<lambda>uri n. Inr ''connection''"] h by simp
qed

text \<open>
  C2. In \<^verbatim>\<open>lib/mongodb.ts\<close> the absence of \<^verbatim>\<open>MONGODB_URI\<close> (undefined or
  empty) ends the run while the module is loaded: the import throws, and there is no
  first call to \<^verbatim>\<open>connectToDatabase\<close> in which the error could be raised. The
  specification places the error in the first connection attempt, as does the copy in
  \<^verbatim>\<open>app/providers.tsx\<close>.
\<close>

theorem load_module_throws_at_load:
  "load_then_connect None None refused_once
     = LoadFailed (Error ''Please define the MONGODB_URI environment variable'')
   \<and> load_then_connect (Some []) None refused_once
     = LoadFailed (Error ''Please define the MONGODB_URI environment variable'')"
  by (simp add: load_then_connect_def load_module_def missing_uri_def)

text \<open>The same for every cache and every environment without the variable.\<close>

theorem load_module_missing_uri:
  assumes "MONGODB_URI = None \<or> MONGODB_URI = Some []"
  shows "load_module MONGODB_URI global_mongoose = Inl missing_uri
       \<and> load_then_connect MONGODB_URI global_mongoose connect = LoadFailed missing_uri"
  using assms by (auto simp: load_module_def load_then_connect_def)

theorem load_module_missing_uri_witness:
  "load_then_connect None None refused_once = LoadFailed missing_uri"
  using load_module_missing_uri [of None None refused_once] by simp

subsection \<open>The copy in \<^verbatim>\<open>app/providers.tsx\<close>\<close>

text \<open>
  A failed call of the copy leaves the cache empty, both \<^verbatim>\<open>cached.conn\<close> and
  \<^verbatim>\<open>cached.promise\<close>: a connection attempt that rejects resets the promise, and
  the absence of the variable is met before a promise is stored.
\<close>

lemma connectToDatabase_providers_resets:
  assumes "connectToDatabase_providers env connect rt = (Inl e, rt')"
  shows "conn (cached rt') = None \<and> promise (cached rt') = None"
  using assms
  by (cases rt; cases "cached rt")
    (auto simp: connectToDatabase_providers_def Let_def split: option.splits sum.splits if_splits)

lemma connectToDatabase_providers_fresh_attempt:
  assumes "conn (cached rt) = None" and "promise (cached rt) = None" and "uri \<noteq> []"
  shows "fst (connectToDatabase_providers (Some uri) connect rt) = connect uri (attempts rt)
       \<and> attempts (snd (connectToDatabase_providers (Some uri) connect rt)) = attempts rt + 1"
  using assms
  by (auto simp: connectToDatabase_providers_def Let_def split: sum.splits)

text \<open>
  So the call after a failed one makes a fresh connection attempt and answers what that
  attempt gives, in whatever environment it runs: the failure is not replayed.
\<close>

theorem connectToDatabase_providers_retries:
  assumes "connectToDatabase_providers env connect rt = (Inl e, rt')" and "uri \<noteq> []"
  shows "fst (connectToDatabase_providers (Some uri) connect' rt') = connect' uri (attempts rt')
       \<and> attempts (snd (connectToDatabase_providers (Some uri) connect' rt')) = attempts rt' + 1"
  using connectToDatabase_providers_resets [OF assms(1)] assms(2)
  by (intro connectToDatabase_providers_fresh_attempt) simp_all

theorem connectToDatabase_providers_retries_witness:
  "connectToDatabase_providers (Some ''mongodb://db'') refused_once fresh
     = (Inl (Error ''connect ECONNREFUSED''), fresh\<lparr>attempts := 1\<rparr>)
   \<and> fst (connectToDatabase_providers (Some ''mongodb://db'') refused_once (fresh\<lparr>attempts := 1\<rparr>))
       = Inr ''connection''
   \<and> attempts (snd (connectToDatabase_providers (Some ''mongodb://db'') refused_once
        (fresh\<lparr>attempts := 1\<rparr>))) = 2"
proof -
  have h: "connectToDatabase_providers (Some ''mongodb://db'') refused_once fresh
     = (Inl (Error ''connect ECONNREFUSED''), fresh\<lparr>attempts := 1\<rparr>)"
    by (simp add: connectToDatabase_providers_def refused_once_def fresh_def Let_def)
  have u: "''mongodb://db'' \<noteq> []" by simp
  show ?thesis
    using connectToDatabase_providers_retries [OF h u, of refused_once] h
    by (simp add: refused_once_def fresh_def)
qed

text \<open>
  Without \<^verbatim>\<open>MONGODB_URI\<close> the copy loads, and the error is that of the first call
  to \<^verbatim>\<open>connectToDatabase\<close>, which leaves the cache as it was.
\<close>

theorem connectToDatabase_providers_missing_uri:
  assumes "MONGODB_URI = None \<or> MONGODB_URI = Some []"
  shows "load_then_connect_providers MONGODB_URI None connect
       = FirstCall (Inl undefined_uri, load_providers None)"
  using assms
  by (auto simp: load_then_connect_providers_def connectToDatabase_providers_def load_providers_def)

theorem connectToDatabase_providers_missing_uri_witness:
  "load_then_connect_providers None None refused_once
     = FirstCall (Inl (Error
         ''MONGODB_URI environment variable is not defined. Please add it to your .env.local file.''),
        \<lparr>cached = \<lparr>conn = None, promise = None\<rparr>, attempts = 0\<rparr>)"
  using connectToDatabase_providers_missing_uri [of None refused_once]
  by (simp add: undefined_uri_def load_providers_def)

end
